theory Spec2Isabelle
  imports Complex_Main "HOL-Library.Multiset"
begin

text \<open>
  The food search and the nutrient arithmetic of the meal screens: \<open>parseBrazilianNumber\<close>,
  \<open>normalizeText\<close> and the search of the \<open>FoodSelect\<close> component (in the sources under
  components/layout/BottomNav.tsx), and the search, the list of added foods and their totals
  of components/ui/AddExtraMealModal.tsx. What the code takes from the JavaScript run time
  (Number arithmetic, \<open>parseFloat\<close>, the string methods, \<open>sort\<close>) is modelled first.
\<close>

section \<open>JavaScript numbers\<close>

text \<open>
  The program computes with JavaScript Numbers (IEEE-754 binary64). A Number is modelled
  as an exact rational or one of the three special values. Every arithmetic operation
  computes the exact rational result and hands it to a rounding function \<open>fl\<close>, a
  parameter of the model: \<open>exact\<close> keeps the result (real arithmetic), \<open>binary64\<close>
  rounds it to the nearest double, ties to even, as the machine does. Signed zeros are
  not distinguished: a zero is the positive zero.
\<close>

datatype jsnum = NaN | PInf | NInf | Fin rat

type_synonym rounding = "rat \<Rightarrow> jsnum"

definition exact :: rounding where
  "exact = Fin"

definition pow2 :: "int \<Rightarrow> rat" where
  "pow2 k = (if 0 \<le> k then 2 ^ nat k else 1 / 2 ^ nat (- k))"

function bitlen :: "int \<Rightarrow> nat" where
  "bitlen n = (if n \<le> 0 then 0 else Suc (bitlen (n div 2)))"
  by pat_completeness auto
termination
  by (relation "measure nat") auto

definition ilog2 :: "rat \<Rightarrow> int" where
  \<comment> \<open>\<open>\<lfloor>log\<^sub>2 x\<rfloor>\<close> of a positive rational\<close>
  "ilog2 x = (if 1 \<le> x then int (bitlen \<lfloor>x\<rfloor>) - 1 else - int (bitlen (\<lceil>1 / x\<rceil> - 1)))"

definition round_half_even :: "rat \<Rightarrow> int" where
  "round_half_even x =
     (let f = \<lfloor>x\<rfloor>; d = x - of_int f
      in if d < 1 / 2 then f else if 1 / 2 < d then f + 1 else if even f then f else f + 1)"

definition binary64 :: rounding where
  \<comment> \<open>53 significant bits, exponents from -1022 (below: subnormal spacing) to 1023 (above: overflow)\<close>
  "binary64 x =
     (if x = 0 then Fin 0
      else let e = max (ilog2 \<bar>x\<bar>) (- 1022);
               u = pow2 (e - 52);
               y = of_int (round_half_even (x / u)) * u
           in if 2 ^ 1024 \<le> \<bar>y\<bar> then (if 0 < x then PInf else NInf) else Fin y)"

fun isneg :: "jsnum \<Rightarrow> bool" where
  "isneg (Fin a) = (a < 0)"
| "isneg NInf = True"
| "isneg _ = False"

fun jadd :: "rounding \<Rightarrow> jsnum \<Rightarrow> jsnum \<Rightarrow> jsnum" where
  "jadd fl NaN _ = NaN"
| "jadd fl _ NaN = NaN"
| "jadd fl (Fin a) (Fin b) = fl (a + b)"
| "jadd fl (Fin a) y = y"
| "jadd fl x (Fin b) = x"
| "jadd fl x y = (if x = y then x else NaN)"

fun jmul :: "rounding \<Rightarrow> jsnum \<Rightarrow> jsnum \<Rightarrow> jsnum" where
  "jmul fl NaN _ = NaN"
| "jmul fl _ NaN = NaN"
| "jmul fl (Fin a) (Fin b) = fl (a * b)"
| "jmul fl x y =
     (if x = Fin 0 \<or> y = Fin 0 then NaN else if isneg x = isneg y then PInf else NInf)"

fun jdiv :: "rounding \<Rightarrow> jsnum \<Rightarrow> jsnum \<Rightarrow> jsnum" where
  "jdiv fl NaN _ = NaN"
| "jdiv fl _ NaN = NaN"
| "jdiv fl (Fin a) (Fin b) =
     (if b = 0 then (if a = 0 then NaN else if 0 < a then PInf else NInf) else fl (a / b))"
| "jdiv fl (Fin a) _ = Fin 0"
| "jdiv fl x (Fin b) = (if isneg x = (b < 0) then PInf else NInf)"
| "jdiv fl _ _ = NaN"

fun jround :: "jsnum \<Rightarrow> jsnum" where
  \<comment> \<open>\<open>Math.round\<close>: the nearest integer, a tie going up\<close>
  "jround (Fin a) = Fin (of_int \<lfloor>a + 1 / 2\<rfloor>)"
| "jround x = x"

fun jgt :: "jsnum \<Rightarrow> jsnum \<Rightarrow> bool" where
  "jgt NaN _ = False"
| "jgt _ NaN = False"
| "jgt (Fin a) (Fin b) = (b < a)"
| "jgt PInf y = (y \<noteq> PInf)"
| "jgt NInf _ = False"
| "jgt (Fin a) y = (y = NInf)"

fun isNaN :: "jsnum \<Rightarrow> bool" where
  "isNaN NaN = True"
| "isNaN _ = False"

fun truthy :: "jsnum \<Rightarrow> bool" where
  \<comment> \<open>a Number is falsy when it is NaN or zero\<close>
  "truthy NaN = False"
| "truthy (Fin a) = (a \<noteq> 0)"
| "truthy _ = True"

definition or_else :: "jsnum \<Rightarrow> jsnum \<Rightarrow> jsnum" where
  \<comment> \<open>\<open>x || d\<close> on Numbers\<close>
  "or_else x d = (if truthy x then x else d)"


definition near :: "nat \<Rightarrow> rat \<Rightarrow> rat \<Rightarrow> bool" where
  \<comment> \<open>\<open>y\<close> is \<open>x\<close> up to \<open>n\<close> roundings: a factor of at most \<open>(1 + 2\<^sup>-\<^sup>5\<^sup>3)\<^sup>n\<close> either way\<close>
  "near n x y = (x / (1 + 1 / 2 ^ 53) ^ n \<le> y \<and> y \<le> x * (1 + 1 / 2 ^ 53) ^ n)"

section \<open>JavaScript strings and \<open>parseFloat\<close>\<close>

text \<open>
  A string is its list of UTF-16 code units. \<open>str\<close> reads an ASCII literal.
\<close>

type_synonym jsstring = "nat list"

definition str :: "string \<Rightarrow> jsstring" where
  "str s = map of_char s"

definition isWS :: "nat \<Rightarrow> bool" where
  \<comment> \<open>white space and line terminators: what \<open>trim\<close>, \<open>\s\<close> and \<open>parseFloat\<close> skip\<close>
  "isWS c = (c \<in> {9, 10, 11, 12, 13, 32, 160, 5760, 8232, 8233, 8239, 8287, 12288, 65279}
             \<or> (8192 \<le> c \<and> c \<le> 8202))"

definition isDigit :: "nat \<Rightarrow> bool" where
  "isDigit c = (48 \<le> c \<and> c \<le> 57)"

definition digit :: "nat \<Rightarrow> nat" where
  "digit c = c - 48"

definition isE :: "nat \<Rightarrow> bool" where
  "isE c = (c = 101 \<or> c = 69)"

text \<open>
  \<open>parseFloat\<close> is a built-in: it skips leading white space and reads the longest prefix
  that is a decimal literal (sign, digits, fraction, exponent, or \<open>Infinity\<close>); with no
  such prefix the result is NaN. It is modelled as a scanner: a state records what has
  been read, \<open>step\<close> takes the next code unit or refuses it, and \<open>finish\<close> is the value of
  what has been read when the scanner stops.
\<close>

datatype pstate =
    PStart
  | PSign bool
  | PInfinity bool nat
  | PInt bool nat
  | PDot bool
  | PFrac bool nat nat
  | PExpMark bool nat nat
  | PExpSign bool nat nat bool
  | PExp bool nat nat bool nat

definition start_number :: "bool \<Rightarrow> nat \<Rightarrow> pstate option" where
  "start_number neg c =
     (if isDigit c then Some (PInt neg (digit c))
      else if c = 46 then Some (PDot neg)
      else if c = 73 then Some (PInfinity neg 1)
      else None)"

fun step :: "pstate \<Rightarrow> nat \<Rightarrow> pstate option" where
  "step PStart c =
     (if isWS c then Some PStart
      else if c = 43 then Some (PSign False)
      else if c = 45 then Some (PSign True)
      else start_number False c)"
| "step (PSign neg) c = start_number neg c"
| "step (PInfinity neg n) c =
     (if n < 8 \<and> c = str ''Infinity'' ! n then Some (PInfinity neg (Suc n)) else None)"
| "step (PInt neg m) c =
     (if isDigit c then Some (PInt neg (10 * m + digit c))
      else if c = 46 then Some (PFrac neg m 0)
      else if isE c then Some (PExpMark neg m 0)
      else None)"
| "step (PDot neg) c = (if isDigit c then Some (PFrac neg (digit c) 1) else None)"
| "step (PFrac neg m k) c =
     (if isDigit c then Some (PFrac neg (10 * m + digit c) (Suc k))
      else if isE c then Some (PExpMark neg m k)
      else None)"
| "step (PExpMark neg m k) c =
     (if isDigit c then Some (PExp neg m k False (digit c))
      else if c = 43 then Some (PExpSign neg m k False)
      else if c = 45 then Some (PExpSign neg m k True)
      else None)"
| "step (PExpSign neg m k eneg) c =
     (if isDigit c then Some (PExp neg m k eneg (digit c)) else None)"
| "step (PExp neg m k eneg e) c =
     (if isDigit c then Some (PExp neg m k eneg (10 * e + digit c)) else None)"

definition decimal :: "bool \<Rightarrow> nat \<Rightarrow> nat \<Rightarrow> rat" where
  \<comment> \<open>the value of the digits \<open>m\<close>, the last \<open>k\<close> of them after the point, with its sign\<close>
  "decimal neg m k = (if neg then - (of_nat m / 10 ^ k) else of_nat m / 10 ^ k)"

fun finish :: "rounding \<Rightarrow> pstate \<Rightarrow> jsnum" where
  "finish fl PStart = NaN"
| "finish fl (PSign neg) = NaN"
| "finish fl (PInfinity neg n) = (if n = 8 then (if neg then NInf else PInf) else NaN)"
| "finish fl (PInt neg m) = fl (decimal neg m 0)"
| "finish fl (PDot neg) = NaN"
| "finish fl (PFrac neg m k) = fl (decimal neg m k)"
| "finish fl (PExpMark neg m k) = fl (decimal neg m k)"
| "finish fl (PExpSign neg m k eneg) = fl (decimal neg m k)"
| "finish fl (PExp neg m k eneg e) =
     fl (if eneg then decimal neg m k / 10 ^ e else decimal neg m k * 10 ^ e)"

fun scan :: "rounding \<Rightarrow> pstate \<Rightarrow> jsstring \<Rightarrow> jsnum" where
  "scan fl st [] = finish fl st"
| "scan fl st (c # cs) = (case step st c of None \<Rightarrow> finish fl st | Some st' \<Rightarrow> scan fl st' cs)"

definition parseFloat :: "rounding \<Rightarrow> jsstring \<Rightarrow> jsnum" where
  "parseFloat fl s = scan fl PStart s"



section \<open>FoodSelect: \<open>parseBrazilianNumber\<close>\<close>

datatype jsval = JNum jsnum | JStr jsstring | JNull | JUndefined

fun replace_first :: "nat \<Rightarrow> nat \<Rightarrow> jsstring \<Rightarrow> jsstring" where
  \<comment> \<open>\<open>s.replace(a, b)\<close> with a one-character string pattern: only the first occurrence\<close>
  "replace_first a b [] = []"
| "replace_first a b (c # cs) = (if c = a then b # cs else c # replace_first a b cs)"

definition replace_all :: "nat \<Rightarrow> nat \<Rightarrow> jsstring \<Rightarrow> jsstring" where
  \<comment> \<open>\<open>s.replace(/a/g, b)\<close>: every occurrence\<close>
  "replace_all a b s = map (\<lambda>c. if c = a then b else c) s"

fun parseBrazilianNumber :: "rounding \<Rightarrow> jsval \<Rightarrow> jsnum" where
  "parseBrazilianNumber fl (JNum n) = n"
| "parseBrazilianNumber fl JNull = Fin 0"
| "parseBrazilianNumber fl JUndefined = Fin 0"
| "parseBrazilianNumber fl (JStr s) =
     (if s = [] then Fin 0
      else let normalized = replace_first 44 46 s;
               parsed = parseFloat fl normalized
           in if isNaN parsed then Fin 0 else parsed)"

section \<open>Normalising and matching names\<close>

text \<open>
  \<open>toLowerCase\<close>, \<open>normalize('NFD')\<close> and \<open>localeCompare\<close> are built-ins that depend on
  the Unicode tables and the locale. They are parameters of the model, held in a record.
\<close>

record unicode =
  toLowerCase :: "jsstring \<Rightarrow> jsstring"
  normalizeNFD :: "jsstring \<Rightarrow> jsstring"
  localeCompare :: "jsstring \<Rightarrow> jsstring \<Rightarrow> int"

definition trim :: "jsstring \<Rightarrow> jsstring" where
  "trim s = rev (dropWhile isWS (rev (dropWhile isWS s)))"

definition isMark :: "nat \<Rightarrow> bool" where
  \<comment> \<open>the code units U+0300 to U+036F, the combining diacritical marks\<close>
  "isMark c = (768 \<le> c \<and> c \<le> 879)"

definition normalizeText :: "unicode \<Rightarrow> jsstring \<Rightarrow> jsstring" where
  "normalizeText U text =
     trim (replace_all 44 32 (filter (\<lambda>c. \<not> isMark c) (normalizeNFD U (toLowerCase U text))))"

fun split_from :: "bool \<Rightarrow> jsstring \<Rightarrow> jsstring \<Rightarrow> jsstring list" where
  \<comment> \<open>\<open>inws\<close>: the last unit read was white space; \<open>cur\<close>: the piece being read, reversed\<close>
  "split_from inws cur [] = [rev cur]"
| "split_from inws cur (c # cs) =
     (if isWS c then (if inws then split_from True cur cs else rev cur # split_from True [] cs)
      else split_from False (c # cur) cs)"

definition split_ws :: "jsstring \<Rightarrow> jsstring list" where
  \<comment> \<open>\<open>s.split(/\s+/)\<close>: the pieces between the maximal runs of white space\<close>
  "split_ws s = split_from False [] s"

definition searchWords :: "unicode \<Rightarrow> jsstring \<Rightarrow> jsstring list" where
  "searchWords U term = filter (\<lambda>w. 0 < length w) (split_ws (normalizeText U term))"

definition startsWith :: "jsstring \<Rightarrow> jsstring \<Rightarrow> bool" where
  "startsWith s w = (take (length w) s = w)"

fun includes_js :: "jsstring \<Rightarrow> jsstring \<Rightarrow> bool" where
  \<comment> \<open>\<open>s.includes(w)\<close>: \<open>w\<close> starts at some position of \<open>s\<close>\<close>
  "includes_js [] w = (w = [])"
| "includes_js (c # s) w = (startsWith (c # s) w \<or> includes_js s w)"

fun insert_js :: "('a \<Rightarrow> 'a \<Rightarrow> int) \<Rightarrow> 'a \<Rightarrow> 'a list \<Rightarrow> 'a list" where
  "insert_js cmp x [] = [x]"
| "insert_js cmp x (y # ys) = (if cmp x y \<le> 0 then x # y # ys else y # insert_js cmp x ys)"

definition sort_js :: "('a \<Rightarrow> 'a \<Rightarrow> int) \<Rightarrow> 'a list \<Rightarrow> 'a list" where
  \<comment> \<open>\<open>xs.sort(cmp)\<close>, a stable sort: each element goes before the first later one that
      the comparator does not put before it\<close>
  "sort_js cmp xs = foldr (insert_js cmp) xs []"

section \<open>AddExtraMealModal.tsx: the meal being composed\<close>

text \<open>
  A row of the food table (the type \<open>TabelaTaco\<close> is imported from types/database; these
  are the fields the code reads), an added food, and the state of the modal that the
  functions below read and write: \<open>quantity_input\<close> is the state variable \<open>quantity\<close>, the
  text of the quantity field; \<open>mealName\<close> and \<open>loading\<close> play no part.
\<close>

record TabelaTaco =
  id_taco :: nat
  alimento :: jsstring
  caloria :: jsval
  proteina :: jsval
  carboidrato :: jsval
  gordura :: jsval

record nutrients =
  calories :: jsnum
  protein :: jsnum
  carbs :: jsnum
  fats :: jsnum

record ExtraFood = nutrients +
  id_food :: jsstring
  name :: jsstring
  quantity :: jsnum

record modal_state =
  foods :: "ExtraFood list"
  searchTerm :: jsstring
  searchResults :: "TabelaTaco list"
  selectedFood :: "TabelaTaco option"
  quantity_input :: jsstring

definition newFood ::
  "rounding \<Rightarrow> (jsstring \<Rightarrow> jsstring) \<Rightarrow> jsstring \<Rightarrow> TabelaTaco \<Rightarrow> jsnum \<Rightarrow> ExtraFood" where
  \<comment> \<open>the object built in \<open>addFoodToMeal\<close>; \<open>formatFoodName\<close> and the fresh UUID are given\<close>
  "newFood fl formatFoodName uuid sel qty =
     (let multiplier = jdiv fl qty (Fin 100)
      in \<lparr> calories = jround (jmul fl (parseBrazilianNumber fl (caloria sel)) multiplier),
           protein = jdiv fl (jround (jmul fl (jmul fl (parseBrazilianNumber fl (proteina sel)) multiplier) (Fin 10))) (Fin 10),
           carbs = jdiv fl (jround (jmul fl (jmul fl (parseBrazilianNumber fl (carboidrato sel)) multiplier) (Fin 10))) (Fin 10),
           fats = jdiv fl (jround (jmul fl (jmul fl (parseBrazilianNumber fl (gordura sel)) multiplier) (Fin 10))) (Fin 10),
           id_food = uuid,
           name = formatFoodName (alimento sel),
           quantity = qty \<rparr>)"

definition addFoodToMeal ::
  "rounding \<Rightarrow> (jsstring \<Rightarrow> jsstring) \<Rightarrow> jsstring \<Rightarrow> modal_state \<Rightarrow> modal_state" where
  "addFoodToMeal fl formatFoodName uuid s =
     (case selectedFood s of
        None \<Rightarrow> s
      | Some sel \<Rightarrow>
          let qty = or_else (parseFloat fl (quantity_input s)) (Fin 100)
          in s\<lparr> foods := foods s @ [newFood fl formatFoodName uuid sel qty],
                selectedFood := None,
                searchTerm := [],
                quantity_input := str ''100'' \<rparr>)"

definition removeFood :: "jsstring \<Rightarrow> modal_state \<Rightarrow> modal_state" where
  "removeFood ident s = s\<lparr> foods := filter (\<lambda>f. id_food f \<noteq> ident) (foods s) \<rparr>"

definition rescale :: "rounding \<Rightarrow> ExtraFood \<Rightarrow> jsnum \<Rightarrow> ExtraFood" where
  \<comment> \<open>what \<open>updateFoodQuantity\<close> makes of the food whose id matches; \<open>ratio\<close> is computed and not used\<close>
  "rescale fl f qty =
     (let originalMultiplier = jdiv fl (quantity f) (Fin 100);
          newMultiplier = jdiv fl qty (Fin 100);
          ratio = (if jgt originalMultiplier (Fin 0) then jdiv fl newMultiplier originalMultiplier
                   else newMultiplier)
      in f\<lparr> quantity := qty,
            calories := jround (jmul fl (jdiv fl (calories f) (jdiv fl (quantity f) (Fin 100))) (jdiv fl qty (Fin 100))),
            protein := jdiv fl (jround (jmul fl (jmul fl (jdiv fl (protein f) (jdiv fl (quantity f) (Fin 100))) (jdiv fl qty (Fin 100))) (Fin 10))) (Fin 10),
            carbs := jdiv fl (jround (jmul fl (jmul fl (jdiv fl (carbs f) (jdiv fl (quantity f) (Fin 100))) (jdiv fl qty (Fin 100))) (Fin 10))) (Fin 10),
            fats := jdiv fl (jround (jmul fl (jmul fl (jdiv fl (fats f) (jdiv fl (quantity f) (Fin 100))) (jdiv fl qty (Fin 100))) (Fin 10))) (Fin 10) \<rparr>)"

definition updateFoodQuantity :: "rounding \<Rightarrow> jsstring \<Rightarrow> jsstring \<Rightarrow> modal_state \<Rightarrow> modal_state" where
  "updateFoodQuantity fl ident newQty s =
     (let qty = or_else (parseFloat fl newQty) (Fin 0)
      in s\<lparr> foods := map (\<lambda>f. if id_food f \<noteq> ident then f else rescale fl f qty) (foods s) \<rparr>)"

definition mealTotals :: "rounding \<Rightarrow> modal_state \<Rightarrow> nutrients" where
  "mealTotals fl s =
     foldl (\<lambda>acc food. \<lparr> calories = jadd fl (calories acc) (calories food),
                          protein = jadd fl (protein acc) (protein food),
                          carbs = jadd fl (carbs acc) (carbs food),
                          fats = jadd fl (fats acc) (fats food) \<rparr>)
           \<lparr> calories = Fin 0, protein = Fin 0, carbs = Fin 0, fats = Fin 0 \<rparr>
           (foods s)"

section \<open>Searching the food table\<close>

definition matches :: "unicode \<Rightarrow> jsstring list \<Rightarrow> TabelaTaco \<Rightarrow> bool" where
  \<comment> \<open>the callback of \<open>data.filter\<close>\<close>
  "matches U words food =
     (let normalizedName = normalizeText U (alimento food)
      in list_all (\<lambda>word. includes_js normalizedName word) words)"

definition compareFoods :: "unicode \<Rightarrow> jsstring list \<Rightarrow> TabelaTaco \<Rightarrow> TabelaTaco \<Rightarrow> int" where
  \<comment> \<open>the comparator given to \<open>sort\<close>\<close>
  "compareFoods U words a b =
     (let aName = normalizeText U (alimento a);
          bName = normalizeText U (alimento b);
          firstWord = (case words of [] \<Rightarrow> [] | w # ws \<Rightarrow> w);
          aStartsWith = startsWith aName firstWord;
          bStartsWith = startsWith bName firstWord
      in if aStartsWith \<and> \<not> bStartsWith then - 1
         else if \<not> aStartsWith \<and> bStartsWith then 1
         else localeCompare U aName bName)"

definition rank :: "unicode \<Rightarrow> nat \<Rightarrow> jsstring \<Rightarrow> TabelaTaco list \<Rightarrow> TabelaTaco list" where
  \<comment> \<open>filter, sort and slice, the same in both components but for the limit\<close>
  "rank U limit term data =
     (let words = searchWords U term;
          filtered = filter (matches U words) data;
          sorted = sort_js (compareFoods U words) filtered
      in take limit sorted)"

datatype fetched = Failed | NoData | Rows "TabelaTaco list"

definition searchFoods :: "unicode \<Rightarrow> jsstring \<Rightarrow> fetched \<Rightarrow> modal_state \<Rightarrow> modal_state" where
  \<comment> \<open>AddExtraMealModal.tsx; \<open>fetched\<close> is what the query of the table returned\<close>
  "searchFoods U term got s =
     (if length term < 2 then s\<lparr> searchResults := [] \<rparr>
      else case got of
             Rows data \<Rightarrow> s\<lparr> searchResults := rank U 20 term data \<rparr>
           | _ \<Rightarrow> s)"

definition searchFoods_select ::
  "unicode \<Rightarrow> jsstring \<Rightarrow> fetched \<Rightarrow> TabelaTaco list \<Rightarrow> TabelaTaco list" where
  \<comment> \<open>FoodSelect, with \<open>term\<close> its \<open>searchTerm\<close>: the new value of its \<open>foods\<close>, the list shown\<close>
  "searchFoods_select U term got shown =
     (if length term < 2 then []
      else case got of
             Failed \<Rightarrow> []
           | NoData \<Rightarrow> shown
           | Rows data \<Rightarrow> rank U 30 term data)"

section \<open>The built-ins on Latin-1 text\<close>

text \<open>
  For the examples: what the built-ins do on strings of code units below 256, from the
  Unicode tables (lower case of the Latin-1 capitals; canonical decomposition of the
  Latin-1 letters with a diacritic), and a comparison by code units. The comparison is
  that of \<open>localeCompare\<close> only on names of lower-case ASCII letters and spaces, which both
  order alphabetically; on digits and punctuation the collation of the run time orders
  otherwise, and the examples have no such names.
\<close>

definition latin1_lower :: "nat \<Rightarrow> nat" where
  "latin1_lower c =
     (if (65 \<le> c \<and> c \<le> 90) \<or> (192 \<le> c \<and> c \<le> 222 \<and> c \<noteq> 215) then c + 32 else c)"

definition latin1_decomposition :: "(nat \<times> nat list) list" where
  "latin1_decomposition =
     [(192, [65, 768]), (193, [65, 769]), (194, [65, 770]), (195, [65, 771]), (196, [65, 776]),
      (197, [65, 778]), (199, [67, 807]), (200, [69, 768]), (201, [69, 769]), (202, [69, 770]),
      (203, [69, 776]), (204, [73, 768]), (205, [73, 769]), (206, [73, 770]), (207, [73, 776]),
      (209, [78, 771]), (210, [79, 768]), (211, [79, 769]), (212, [79, 770]), (213, [79, 771]),
      (214, [79, 776]), (217, [85, 768]), (218, [85, 769]), (219, [85, 770]), (220, [85, 776]),
      (221, [89, 769]), (224, [97, 768]), (225, [97, 769]), (226, [97, 770]), (227, [97, 771]),
      (228, [97, 776]), (229, [97, 778]), (231, [99, 807]), (232, [101, 768]), (233, [101, 769]),
      (234, [101, 770]), (235, [101, 776]), (236, [105, 768]), (237, [105, 769]), (238, [105, 770]),
      (239, [105, 776]), (241, [110, 771]), (242, [111, 768]), (243, [111, 769]), (244, [111, 770]),
      (245, [111, 771]), (246, [111, 776]), (249, [117, 768]), (250, [117, 769]), (251, [117, 770]),
      (252, [117, 776]), (253, [121, 769]), (255, [121, 776])]"

definition latin1_nfd :: "nat \<Rightarrow> nat list" where
  "latin1_nfd c = (case map_of latin1_decomposition c of None \<Rightarrow> [c] | Some d \<Rightarrow> d)"

fun compare_units :: "jsstring \<Rightarrow> jsstring \<Rightarrow> int" where
  "compare_units [] [] = 0"
| "compare_units [] (y # ys) = - 1"
| "compare_units (x # xs) [] = 1"
| "compare_units (x # xs) (y # ys) =
     (if x < y then - 1 else if y < x then 1 else compare_units xs ys)"

definition latin1 :: unicode where
  "latin1 =
     \<lparr> toLowerCase = map latin1_lower,
       normalizeNFD = (\<lambda>s. concat (map latin1_nfd s)),
       localeCompare = compare_units \<rparr>"

section \<open>Inputs for the examples\<close>

definition food :: "jsstring \<Rightarrow> jsnum \<Rightarrow> jsnum \<Rightarrow> jsnum \<Rightarrow> ExtraFood" where
  \<comment> \<open>an added food with the given id, quantity, calories and protein\<close>
  "food i q c p =
     \<lparr> calories = c, protein = p, carbs = Fin 0, fats = Fin 0,
       id_food = i, name = str ''x'', quantity = q \<rparr>"

definition modal :: "ExtraFood list \<Rightarrow> modal_state" where
  \<comment> \<open>the modal holding these foods, nothing searched or selected\<close>
  "modal fs =
     \<lparr> foods = fs, searchTerm = [], searchResults = [], selectedFood = None,
       quantity_input = str ''100'' \<rparr>"

definition selecting :: "TabelaTaco \<Rightarrow> jsstring \<Rightarrow> modal_state" where
  \<comment> \<open>the empty modal with a food selected and a quantity typed\<close>
  "selecting sel q = (modal []) \<lparr> selectedFood := Some sel, quantity_input := q \<rparr>"

definition rice :: TabelaTaco where
  \<comment> \<open>per 100 g: 124 kcal, 2.5 g protein, 25.8 g carbohydrate, 1.0 g fat\<close>
  "rice =
     \<lparr> id_taco = 1, alimento = str ''Arroz'', caloria = JNum (Fin 124),
       proteina = JNum (binary64 (25 / 10)), carboidrato = JNum (binary64 (258 / 10)),
       gordura = JNum (Fin 1) \<rparr>"

definition taco :: "nat \<Rightarrow> jsstring \<Rightarrow> TabelaTaco" where
  \<comment> \<open>a row of the table with this id and name\<close>
  "taco k n =
     \<lparr> id_taco = k, alimento = n, caloria = JStr (str ''100''), proteina = JStr (str ''1,0''),
       carboidrato = JStr (str ''1,0''), gordura = JStr (str ''1,0'') \<rparr>"

definition arroz_rows :: "TabelaTaco list" where
  \<comment> \<open>21 rows, ids 0 to 20, each named Arroz\<close>
  "arroz_rows = map (\<lambda>k. taco k (str ''Arroz'')) [0..<21]"

definition bananas :: "TabelaTaco list" where
  "bananas =
     [taco 1 (str ''Banana prata''), taco 2 (str ''Abacate''), taco 3 (str ''Banana nanica''),
      taco 4 (str ''Nabo'')]"

definition arroz_araruta :: "TabelaTaco list" where
  \<comment> \<open>the 21 rows named Arroz, then one named Araruta: 22 rows that start with ar\<close>
  "arroz_araruta = arroz_rows @ [taco 21 (str ''Araruta'')]"

section \<open>Evaluating rational arithmetic\<close>

lemma floor_rat_numeral_div [simp]:
  "\<lfloor>numeral a / numeral b :: rat\<rfloor> = numeral a div numeral b"
  by (metis floor_divide_of_int_eq of_int_numeral)

lemma floor_rat_neg_numeral_div [simp]:
  "\<lfloor>- (numeral a / numeral b :: rat)\<rfloor> = - numeral a div numeral b"
  by (metis floor_divide_of_int_eq of_int_numeral of_int_minus minus_divide_left)

lemma ceiling_rat_numeral_div [simp]:
  "\<lceil>numeral a / numeral b :: rat\<rceil> = - (- numeral a div numeral b)"
  by (simp add: ceiling_def)

lemma floor_rat_one_div_numeral [simp]:
  "\<lfloor>1 / numeral b :: rat\<rfloor> = 1 div numeral b"
  by (metis floor_divide_of_int_eq of_int_numeral of_int_1)

declare bitlen.simps [simp del]

lemmas binary64_eval =
  binary64_def ilog2_def pow2_def round_half_even_def Let_def bitlen.simps

lemma binary64_0 [simp]: "binary64 0 = Fin 0"
  by (simp add: binary64_def)

lemma binary64_values:
  "binary64 1 = Fin 1" "binary64 2 = Fin 2" "binary64 5 = Fin 5" "binary64 10 = Fin 10"
  "binary64 124 = Fin 124" "binary64 150 = Fin 150" "binary64 200 = Fin 200"
  "binary64 1000 = Fin 1000" "binary64 (1 / 2) = Fin (1 / 2)" "binary64 (3 / 2) = Fin (3 / 2)"
  "binary64 (5 / 2) = Fin (5 / 2)"
  by (simp_all add: binary64_eval)

lemma binary64_tenths:
  "binary64 (1 / 10) = Fin (3602879701896397 / 36028797018963968)"
  "binary64 (2 / 10) = Fin (3602879701896397 / 18014398509481984)"
  "binary64 (3 / 10) = Fin (5404319552844595 / 18014398509481984)"
  by (simp_all add: binary64_eval)

section \<open>Evaluating the scanner\<close>

lemma str_simps: "str [] = []" "str (c # cs) = of_char c # str cs"
  by (simp_all add: str_def)

lemmas scan_eval =
  parseFloat_def str_simps isWS_def isDigit_def digit_def isE_def start_number_def decimal_def

lemma parseFloat_empty: "parseFloat fl [] = NaN"
  by (simp add: parseFloat_def)

lemma parseFloat_quantities:
  "parseFloat binary64 (str ''150'') = Fin 150"
  "parseFloat binary64 (str ''200'') = Fin 200"
  "parseFloat binary64 (str ''1000'') = Fin 1000"
  by (simp_all add: scan_eval binary64_values)

section \<open>The list of added foods: what an edit and a removal leave alone\<close>

lemma foods_update:
  "foods (updateFoodQuantity fl ident newQty s) =
     map (\<lambda>f. if id_food f \<noteq> ident then f
              else rescale fl f (or_else (parseFloat fl newQty) (Fin 0))) (foods s)"
  by (simp add: updateFoodQuantity_def Let_def)

lemma rescale_keeps:
  "id_food (rescale fl f q) = id_food f" "name (rescale fl f q) = name f"
  by (simp_all add: rescale_def Let_def)

text \<open>
  C10. \<open>updateFoodQuantity\<close> keeps the length of the list, leaves every food with another
  id as it is and keeps the id and the name of the food it edits; \<open>removeFood\<close> keeps, in
  order and unchanged, exactly the foods with another id.
\<close>

theorem selected_items_frame:
  "i < length (foods s) \<Longrightarrow>
     (id_food (foods s ! i) \<noteq> ident \<longrightarrow>
        foods (updateFoodQuantity fl ident newQty s) ! i = foods s ! i)
   \<and> id_food (foods (updateFoodQuantity fl ident newQty s) ! i) = id_food (foods s ! i)
   \<and> name (foods (updateFoodQuantity fl ident newQty s) ! i) = name (foods s ! i)
   \<and> length (foods (updateFoodQuantity fl ident newQty s)) = length (foods s)
   \<and> foods (removeFood ident s) = filter (\<lambda>f. id_food f \<noteq> ident) (foods s)
   \<and> (\<forall>f. f \<in> set (foods (removeFood ident s)) \<longleftrightarrow> f \<in> set (foods s) \<and> id_food f \<noteq> ident)"
  by (simp add: foods_update rescale_keeps removeFood_def)

theorem selected_items_frame_witness:
  "(1::nat) < length (foods (modal [food (str ''a'') (Fin 100) (Fin 124) (Fin 2),
                                   food (str ''b'') (Fin 50) (Fin 30) (Fin 1)]))
   \<and> foods (updateFoodQuantity exact (str ''a'') (str ''150'')
        (modal [food (str ''a'') (Fin 100) (Fin 124) (Fin 2),
                food (str ''b'') (Fin 50) (Fin 30) (Fin 1)])) ! 1
       = food (str ''b'') (Fin 50) (Fin 30) (Fin 1)
   \<and> foods (removeFood (str ''a'')
        (modal [food (str ''a'') (Fin 100) (Fin 124) (Fin 2),
                food (str ''b'') (Fin 50) (Fin 30) (Fin 1)]))
       = [food (str ''b'') (Fin 50) (Fin 30) (Fin 1)]"
  using selected_items_frame [of 1 "modal [food (str ''a'') (Fin 100) (Fin 124) (Fin 2),
      food (str ''b'') (Fin 50) (Fin 30) (Fin 1)]" "str ''a''" exact "str ''150''"]
  by (simp add: modal_def food_def str_def)

section \<open>The totals of the meal\<close>

lemma jadd_exact_commute: "jadd exact x y = jadd exact y x"
  by (cases x; cases y) (simp_all add: exact_def add.commute)

lemma jadd_exact_assoc: "jadd exact (jadd exact x y) z = jadd exact x (jadd exact y z)"
  by (cases x; cases y; cases z) (simp_all add: exact_def add.assoc)

lemma jadd_exact_swap: "jadd exact (jadd exact a x) y = jadd exact (jadd exact a y) x"
  by (metis jadd_exact_assoc jadd_exact_commute)

lemma foldl_jadd_exact_mset:
  assumes "mset xs = mset ys"
  shows "foldl (jadd exact) z xs = foldl (jadd exact) z ys"
proof -
  have "fold (\<lambda>x a. jadd exact a x) xs = fold (\<lambda>x a. jadd exact a x) ys"
    using assms by (intro fold_multiset_equiv) (auto simp: fun_eq_iff jadd_exact_swap)
  then show ?thesis by (simp add: foldl_conv_fold)
qed

lemma foldl_totals:
  "foldl (\<lambda>acc food. \<lparr> calories = jadd fl (calories acc) (calories food),
                          protein = jadd fl (protein acc) (protein food),
                          carbs = jadd fl (carbs acc) (carbs food),
                          fats = jadd fl (fats acc) (fats food) \<rparr>) acc fs =
   \<lparr> calories = foldl (jadd fl) (calories acc) (map calories fs),
     protein = foldl (jadd fl) (protein acc) (map protein fs),
     carbs = foldl (jadd fl) (carbs acc) (map carbs fs),
     fats = foldl (jadd fl) (fats acc) (map fats fs) \<rparr>"
  by (induction fs arbitrary: acc) simp_all

lemma mealTotals_sums:
  "mealTotals fl s =
   \<lparr> calories = foldl (jadd fl) (Fin 0) (map calories (foods s)),
     protein = foldl (jadd fl) (Fin 0) (map protein (foods s)),
     carbs = foldl (jadd fl) (Fin 0) (map carbs (foods s)),
     fats = foldl (jadd fl) (Fin 0) (map fats (foods s)) \<rparr>"
  by (simp add: mealTotals_def foldl_totals)

lemma mealTotals_exact_mset:
  assumes "mset (foods s) = mset (foods s')"
  shows "mealTotals exact s = mealTotals exact s'"
proof -
  have "mset (map g (foods s)) = mset (map g (foods s'))" for g :: "ExtraFood \<Rightarrow> jsnum"
    using assms by (metis mset_map)
  then show ?thesis
    by (simp add: mealTotals_sums foldl_jadd_exact_mset)
qed

text \<open>
  C8. For every rounding of the arithmetic, the totals of no foods are all zero
  and each total is the sum, taken from zero along the list, of that field of the foods.
  In exact arithmetic the totals of two lists with the same foods in another order are
  equal.
\<close>

theorem mealTotals_sum_order:
  "mealTotals fl (s\<lparr>foods := []\<rparr>) = \<lparr> calories = Fin 0, protein = Fin 0, carbs = Fin 0, fats = Fin 0 \<rparr>
   \<and> mealTotals fl s =
       \<lparr> calories = foldl (jadd fl) (Fin 0) (map calories (foods s)),
         protein = foldl (jadd fl) (Fin 0) (map protein (foods s)),
         carbs = foldl (jadd fl) (Fin 0) (map carbs (foods s)),
         fats = foldl (jadd fl) (Fin 0) (map fats (foods s)) \<rparr>
   \<and> (mset (foods s) = mset (foods s') \<longrightarrow> mealTotals exact s = mealTotals exact s')"
  using mealTotals_sums [of fl s] mealTotals_exact_mset [of s s']
  by (simp add: mealTotals_def)

theorem mealTotals_sum_order_witness:
  "mset (foods (modal [food (str ''a'') (Fin 100) (Fin 124) (Fin (1 / 10)), food (str ''b'') (Fin 50) (Fin 30) (Fin (3 / 10))]))
     = mset (foods (modal [food (str ''b'') (Fin 50) (Fin 30) (Fin (3 / 10)), food (str ''a'') (Fin 100) (Fin 124) (Fin (1 / 10))]))
   \<and> mealTotals exact (modal [food (str ''a'') (Fin 100) (Fin 124) (Fin (1 / 10)), food (str ''b'') (Fin 50) (Fin 30) (Fin (3 / 10))])
     = mealTotals exact (modal [food (str ''b'') (Fin 50) (Fin 30) (Fin (3 / 10)), food (str ''a'') (Fin 100) (Fin 124) (Fin (1 / 10))])
   \<and> mealTotals exact (modal [food (str ''a'') (Fin 100) (Fin 124) (Fin (1 / 10)), food (str ''b'') (Fin 50) (Fin 30) (Fin (3 / 10))])
     = \<lparr> calories = Fin 154, protein = Fin (2 / 5), carbs = Fin 0, fats = Fin 0 \<rparr>"
  using mealTotals_sum_order [of exact "modal [food (str ''a'') (Fin 100) (Fin 124) (Fin (1 / 10)), food (str ''b'') (Fin 50) (Fin 30) (Fin (3 / 10))]"
      "modal [food (str ''b'') (Fin 50) (Fin 30) (Fin (3 / 10)), food (str ''a'') (Fin 100) (Fin 124) (Fin (1 / 10))]"]
  by (simp add: mealTotals_def modal_def food_def exact_def)

text \<open>
  In binary64 the order counts: 0.1 + 0.2 + 0.3 and 0.3 + 0.2 + 0.1, each summed from the
  left, differ in the last bit.
\<close>

theorem mealTotals_order_counterexample:
  "protein (mealTotals binary64 (modal
      [food (str ''a'') (Fin 100) (Fin 0) (binary64 (1 / 10)),
       food (str ''b'') (Fin 100) (Fin 0) (binary64 (2 / 10)),
       food (str ''c'') (Fin 100) (Fin 0) (binary64 (3 / 10))]))
   \<noteq> protein (mealTotals binary64 (modal
      [food (str ''c'') (Fin 100) (Fin 0) (binary64 (3 / 10)),
       food (str ''b'') (Fin 100) (Fin 0) (binary64 (2 / 10)),
       food (str ''a'') (Fin 100) (Fin 0) (binary64 (1 / 10))]))"
  by (simp add: mealTotals_def modal_def food_def binary64_tenths) (simp add: binary64_eval)


section \<open>Scaling a food to a quantity\<close>

lemma round_near: "\<bar>of_int \<lfloor>x + 1 / 2\<rfloor> - x\<bar> \<le> (1 / 2 :: rat)"
  by linarith

lemma quantity_defaults:
  "or_else (parseFloat fl []) (Fin 100) = Fin 100"
  "or_else (parseFloat binary64 (str ''0'')) (Fin 100) = Fin 100"
  "or_else (parseFloat binary64 (str ''150'')) (Fin 100) = Fin 150"
  by (simp_all add: or_else_def scan_eval binary64_values)

lemma addFoodToMeal_foods:
  "selectedFood s = Some sel \<Longrightarrow>
   foods (addFoodToMeal fl fmt u s) =
     foods s @ [newFood fl fmt u sel (or_else (parseFloat fl (quantity_input s)) (Fin 100))]"
  by (simp add: addFoodToMeal_def Let_def)

lemma newFood_exact:
  "newFood exact fmt u
     \<lparr> id_taco = k, alimento = n, caloria = JNum (Fin c), proteina = JNum (Fin p),
       carboidrato = JNum (Fin cb), gordura = JNum (Fin g) \<rparr> (Fin q) =
   \<lparr> calories = Fin (of_int \<lfloor>c * (q / 100) + 1 / 2\<rfloor>),
     protein = Fin (of_int \<lfloor>p * (q / 100) * 10 + 1 / 2\<rfloor> / 10),
     carbs = Fin (of_int \<lfloor>cb * (q / 100) * 10 + 1 / 2\<rfloor> / 10),
     fats = Fin (of_int \<lfloor>g * (q / 100) * 10 + 1 / 2\<rfloor> / 10),
     id_food = u, name = fmt n, quantity = Fin q \<rparr>"
  by (simp add: newFood_def Let_def exact_def)

lemma tenth_near:
  "\<bar>of_int \<lfloor>x * 10 + 1 / 2\<rfloor> / 10 - x\<bar> \<le> (1 / 20 :: rat)"
  using round_near [of "x * 10"] by (simp add: field_simps abs_le_iff)

lemma rice_150:
  "foods (addFoodToMeal binary64 fmt u (selecting rice (str ''150''))) =
     [\<lparr> calories = Fin 186, protein = binary64 (38 / 10), carbs = binary64 (387 / 10),
        fats = binary64 (15 / 10), id_food = u, name = fmt (str ''Arroz''),
        quantity = Fin 150 \<rparr>]"
  by (simp add: addFoodToMeal_def selecting_def modal_def rice_def newFood_def Let_def
        or_else_def parseFloat_quantities binary64_values)
     (simp add: binary64_eval)

text \<open>
  C1. The food added for a quantity has, whatever the rounding of the arithmetic,
  calories \<open>round(c \<times> (q / 100))\<close> and protein, carbohydrate and fat
  \<open>round(v \<times> (q / 100) \<times> 10) / 10\<close>, with \<open>Math.round\<close> as it is and \<open>c\<close>, \<open>v\<close> the
  parsed values per 100 g. In exact arithmetic these are the whole number nearest to
  \<open>c \<times> q / 100\<close> and the tenth nearest to \<open>v \<times> q / 100\<close>. In binary64, 150 g of a food
  with 124 kcal, 2.5, 25.8 and 1.0 per 100 g gives 186, 3.8, 38.7 and 1.5.
\<close>

theorem scale_rounds:
  "newFood fl fmt u sel qty =
     \<lparr> calories = jround (jmul fl (parseBrazilianNumber fl (caloria sel)) (jdiv fl qty (Fin 100))),
       protein = jdiv fl (jround (jmul fl (jmul fl (parseBrazilianNumber fl (proteina sel))
                   (jdiv fl qty (Fin 100))) (Fin 10))) (Fin 10),
       carbs = jdiv fl (jround (jmul fl (jmul fl (parseBrazilianNumber fl (carboidrato sel))
                   (jdiv fl qty (Fin 100))) (Fin 10))) (Fin 10),
       fats = jdiv fl (jround (jmul fl (jmul fl (parseBrazilianNumber fl (gordura sel))
                   (jdiv fl qty (Fin 100))) (Fin 10))) (Fin 10),
       id_food = u, name = fmt (alimento sel), quantity = qty \<rparr>
   \<and> newFood exact fmt u
       \<lparr> id_taco = k, alimento = n, caloria = JNum (Fin c), proteina = JNum (Fin p),
         carboidrato = JNum (Fin cb), gordura = JNum (Fin g) \<rparr> (Fin q) =
     \<lparr> calories = Fin (of_int \<lfloor>c * (q / 100) + 1 / 2\<rfloor>),
       protein = Fin (of_int \<lfloor>p * (q / 100) * 10 + 1 / 2\<rfloor> / 10),
       carbs = Fin (of_int \<lfloor>cb * (q / 100) * 10 + 1 / 2\<rfloor> / 10),
       fats = Fin (of_int \<lfloor>g * (q / 100) * 10 + 1 / 2\<rfloor> / 10),
       id_food = u, name = fmt n, quantity = Fin q \<rparr>
   \<and> \<bar>of_int \<lfloor>c * (q / 100) + 1 / 2\<rfloor> - c * (q / 100)\<bar> \<le> 1 / 2
   \<and> \<bar>of_int \<lfloor>p * (q / 100) * 10 + 1 / 2\<rfloor> / 10 - p * (q / 100)\<bar> \<le> 1 / 20
   \<and> \<bar>of_int \<lfloor>cb * (q / 100) * 10 + 1 / 2\<rfloor> / 10 - cb * (q / 100)\<bar> \<le> 1 / 20
   \<and> \<bar>of_int \<lfloor>g * (q / 100) * 10 + 1 / 2\<rfloor> / 10 - g * (q / 100)\<bar> \<le> 1 / 20
   \<and> foods (addFoodToMeal binary64 fmt u (selecting rice (str ''150''))) =
       [\<lparr> calories = Fin 186, protein = binary64 (38 / 10), carbs = binary64 (387 / 10),
          fats = binary64 (15 / 10), id_food = u, name = fmt (str ''Arroz''),
          quantity = Fin 150 \<rparr>]"
  using newFood_exact [of fmt u k n c p cb g q] round_near [of "c * (q / 100)"]
    tenth_near [of "p * (q / 100)"] tenth_near [of "cb * (q / 100)"]
    tenth_near [of "g * (q / 100)"] rice_150 [of fmt u]
  by (simp add: newFood_def Let_def)

section \<open>The accuracy of binary64\<close>

lemma bitlen_pos: "0 < n \<Longrightarrow> bitlen n = Suc (bitlen (n div 2))"
  by (subst bitlen.simps) simp

lemma bitlen_nonpos: "n \<le> 0 \<Longrightarrow> bitlen n = 0"
  by (subst bitlen.simps) simp

lemma bitlen_bounds: "0 < n \<Longrightarrow> 2 ^ (bitlen n - 1) \<le> n \<and> n < 2 ^ bitlen n"
proof (induction n rule: bitlen.induct)
  case (1 n)
  show ?case
  proof (cases "n div 2 \<le> 0")
    case True
    with "1.prems" have "n = 1" by linarith
    then show ?thesis by (simp add: bitlen_pos bitlen_nonpos)
  next
    case False
    then have m: "0 < n div 2" by simp
    with "1.IH" "1.prems" have IH: "2 ^ (bitlen (n div 2) - 1) \<le> n div 2" "n div 2 < 2 ^ bitlen (n div 2)"
      by simp_all
    from m have k: "bitlen (n div 2) = Suc (bitlen (n div 2) - 1)"
      by (simp add: bitlen_pos)
    have "(2::int) ^ bitlen (n div 2) = 2 * 2 ^ (bitlen (n div 2) - 1)"
      by (subst k) simp
    with IH(1) have lo: "2 ^ bitlen (n div 2) \<le> n" by linarith
    from IH(2) have hi: "n < 2 * 2 ^ bitlen (n div 2)" by linarith
    from "1.prems" lo hi show ?thesis by (simp add: bitlen_pos)
  qed
qed

lemma pow2_powi: "pow2 k = 2 powi k"
  by (simp add: pow2_def power_int_def power_inverse inverse_eq_divide power_one_over)

lemma pow2_pos: "0 < pow2 k"
  by (simp add: pow2_powi)

lemma pow2_add: "pow2 (j + k) = pow2 j * pow2 k"
  by (simp add: pow2_powi power_int_add)

lemma pow2_mono: "j \<le> k \<Longrightarrow> pow2 j \<le> pow2 k"
  by (simp add: pow2_powi power_int_increasing)

lemma pow2_nat: "pow2 (int n) = 2 ^ n"
  by (simp add: pow2_def)

lemma pow2_neg_nat: "pow2 (- int n) = 1 / 2 ^ n"
  by (simp add: pow2_powi power_int_minus field_simps)

lemma ilog2_bounds:
  assumes "0 < x"
  shows "pow2 (ilog2 x) \<le> x \<and> x < pow2 (ilog2 x + 1)"
proof (cases "1 \<le> x")
  case True
  then have n: "0 < \<lfloor>x\<rfloor>" by simp
  define k where "k = bitlen \<lfloor>x\<rfloor>"
  from bitlen_bounds [OF n] have b: "2 ^ (k - 1) \<le> \<lfloor>x\<rfloor>" "\<lfloor>x\<rfloor> < 2 ^ k"
    by (simp_all add: k_def)
  from n have kpos: "0 < k" unfolding k_def by (simp add: bitlen_pos)
  have e: "ilog2 x = int (k - 1)"
    using True kpos by (simp add: ilog2_def k_def)
  have "(2::rat) ^ (k - 1) \<le> of_int \<lfloor>x\<rfloor>"
    using b(1) by (metis of_int_le_iff of_int_numeral of_int_power)
  then have lo: "pow2 (int (k - 1)) \<le> x"
    unfolding pow2_nat by (meson le_floor_iff order_trans of_int_floor_le)
  have "\<lfloor>x\<rfloor> + 1 \<le> 2 ^ k" using b(2) by simp
  then have "of_int (\<lfloor>x\<rfloor> + 1) \<le> (2::rat) ^ k"
    by (metis of_int_le_iff of_int_numeral of_int_power)
  moreover have "x < of_int (\<lfloor>x\<rfloor> + 1)" by linarith
  ultimately have "x < 2 ^ k" by linarith
  then have "x < pow2 (int k)" by (simp only: pow2_nat)
  moreover have "int (k - 1) + 1 = int k" using kpos by simp
  ultimately have hi: "x < pow2 (int (k - 1) + 1)" by (simp only:)
  from lo hi show ?thesis unfolding e by simp
next
  case False
  with assms have y: "1 < 1 / x" by (simp add: field_simps)
  define n where "n = \<lceil>1 / x\<rceil> - 1"
  have n1: "of_int n < 1 / x" "1 / x \<le> of_int n + 1"
    unfolding n_def by linarith+
  from y have npos: "0 < n" unfolding n_def by linarith
  define k where "k = bitlen n"
  from bitlen_bounds [OF npos] have b: "2 ^ (k - 1) \<le> n" "n < 2 ^ k"
    by (simp_all add: k_def)
  from npos have kpos: "0 < k" unfolding k_def by (simp add: bitlen_pos)
  have e: "ilog2 x = - int k"
    using False by (simp add: ilog2_def k_def n_def)
  have "n + 1 \<le> 2 ^ k" using b(2) by simp
  then have "of_int (n + 1) \<le> (2::rat) ^ k"
    by (metis of_int_le_iff of_int_numeral of_int_power)
  with n1(2) have "1 / x \<le> 2 ^ k" by simp
  then have "1 \<le> 2 ^ k * x" using assms by (simp add: field_simps)
  then have lo: "pow2 (- int k) \<le> x"
    unfolding pow2_neg_nat by (simp add: field_simps)
  have "(2::rat) ^ (k - 1) \<le> of_int n"
    using b(1) by (metis of_int_le_iff of_int_numeral of_int_power)
  with n1(1) have "2 ^ (k - 1) < 1 / x" by linarith
  then have "2 ^ (k - 1) * x < 1" using assms by (simp add: field_simps)
  then have "x < 1 / 2 ^ (k - 1)" by (simp add: field_simps)
  then have "x < pow2 (- int (k - 1))" by (simp only: pow2_neg_nat)
  moreover have "- int k + 1 = - int (k - 1)" using kpos by simp
  ultimately have hi: "x < pow2 (- int k + 1)" by (simp only:)
  from lo hi show ?thesis unfolding e by simp
qed


lemma round_half_even_near: "\<bar>of_int (round_half_even z) - z\<bar> \<le> 1 / 2"
proof -
  have f: "of_int \<lfloor>z\<rfloor> \<le> z" "z < of_int \<lfloor>z\<rfloor> + 1"
    by linarith+
  consider "z - of_int \<lfloor>z\<rfloor> < 1 / 2" | "1 / 2 < z - of_int \<lfloor>z\<rfloor>" | "z - of_int \<lfloor>z\<rfloor> = 1 / 2"
    by linarith
  then show ?thesis
  proof cases
    case 1
    then have "round_half_even z = \<lfloor>z\<rfloor>"
      by (simp add: round_half_even_def Let_def)
    with 1 f show ?thesis by simp
  next
    case 2
    then have "round_half_even z = \<lfloor>z\<rfloor> + 1"
      by (simp add: round_half_even_def Let_def)
    with 2 f show ?thesis by simp
  next
    case 3
    then have "round_half_even z = \<lfloor>z\<rfloor> \<or> round_half_even z = \<lfloor>z\<rfloor> + 1"
      by (simp add: round_half_even_def Let_def)
    with 3 show ?thesis by auto
  qed
qed


lemma binary64_near:
  assumes lo: "pow2 (- 1022) \<le> x" and hi: "x \<le> pow2 1022"
  shows "\<exists>y. binary64 x = Fin y \<and> \<bar>y - x\<bar> \<le> x / 2 ^ 53"
proof -
  from lo pow2_pos [of "- 1022"] have xpos: "0 < x" by linarith
  define e where "e = ilog2 x"
  from ilog2_bounds [OF xpos] have elo: "pow2 e \<le> x" and ehi: "x < pow2 (e + 1)"
    by (simp_all add: e_def)
  have e: "- 1022 \<le> e"
  proof (rule ccontr)
    assume "\<not> - 1022 \<le> e"
    then have "e + 1 \<le> - 1022" by simp
    then have "pow2 (e + 1) \<le> pow2 (- 1022)" by (rule pow2_mono)
    with lo ehi show False by linarith
  qed
  define u where "u = pow2 (e - 52)"
  have upos: "0 < u" by (simp add: u_def pow2_pos)
  define y where "y = of_int (round_half_even (x / u)) * u"
  have "pow2 e = pow2 (e - 52) * pow2 52"
    using pow2_add [of "e - 52" 52] by simp
  moreover have "pow2 52 = 2 ^ 52"
    using pow2_nat [of 52] by simp
  ultimately have u: "u = pow2 e / 2 ^ 52" by (simp add: u_def)
  have "y - x = (of_int (round_half_even (x / u)) - x / u) * u"
    using upos by (simp add: y_def field_simps)
  then have "\<bar>y - x\<bar> = \<bar>of_int (round_half_even (x / u)) - x / u\<bar> * u"
    using upos by (simp add: abs_mult)
  also have "\<dots> \<le> 1 / 2 * u"
    using upos round_half_even_near [of "x / u"] by (intro mult_right_mono) simp_all
  also have "\<dots> = pow2 e / 2 ^ 53" by (simp add: u)
  also have "\<dots> \<le> x / 2 ^ 53" using elo by (simp add: divide_right_mono)
  finally have near: "\<bar>y - x\<bar> \<le> x / 2 ^ 53" .
  have "x / 2 ^ 53 \<le> x" using xpos by (simp add: field_simps)
  with near have "\<bar>y\<bar> \<le> 2 * x" by linarith
  moreover have "pow2 1022 = 2 ^ 1022" using pow2_nat [of 1022] by simp
  ultimately have "\<bar>y\<bar> < 2 ^ 1024" using hi by simp
  then have "binary64 x = Fin y"
    using xpos e by (simp add: binary64_def Let_def e_def [symmetric] u_def [symmetric] y_def max_def)
  with near show ?thesis by blast
qed

lemma near_zero: "near n 0 y \<Longrightarrow> y = 0"
  by (simp add: near_def)

lemma near_refl: "near 0 x x"
  by (simp add: near_def)

lemma near_nonneg: "near n x y \<Longrightarrow> 0 \<le> x \<Longrightarrow> 0 \<le> y"
  unfolding near_def by (meson divide_nonneg_pos order_trans zero_less_power add_pos_pos zero_less_one zero_less_divide_iff zero_less_numeral)

lemma near_pos: "near n x y \<Longrightarrow> 0 < x \<Longrightarrow> 0 < y"
  unfolding near_def by (meson divide_pos_pos less_le_trans zero_less_power add_pos_pos zero_less_one zero_less_divide_iff zero_less_numeral)

lemma near_mult:
  assumes "near m x1 y1" "near n x2 y2" "0 \<le> x1" "0 \<le> x2"
  shows "near (m + n) (x1 * x2) (y1 * y2)"
proof -
  define A :: rat where "A = (1 + 1 / 2 ^ 53) ^ m"
  define B :: rat where "B = (1 + 1 / 2 ^ 53) ^ n"
  have A: "0 < A" and B: "0 < B" by (simp_all add: A_def B_def)
  have AB: "(1 + 1 / 2 ^ 53) ^ (m + n) = A * B" by (simp add: A_def B_def power_add)
  from assms have 1: "x1 / A \<le> y1" "y1 \<le> x1 * A" "x2 / B \<le> y2" "y2 \<le> x2 * B"
    by (simp_all add: near_def A_def B_def)
  have lo1: "0 \<le> x1 / A" and lo2: "0 \<le> x2 / B" using assms A B by simp_all
  have "(x1 / A) * (x2 / B) \<le> y1 * y2"
    using 1 lo1 lo2 by (intro mult_mono) linarith+
  moreover have "y1 * y2 \<le> (x1 * A) * (x2 * B)"
    using 1 lo1 lo2 assms A B by (intro mult_mono) (linarith | simp)+
  ultimately show ?thesis
    unfolding near_def AB by (simp add: field_simps)
qed

lemma near_div:
  assumes "near m x1 y1" "near n x2 y2" "0 \<le> x1" "0 < x2"
  shows "near (m + n) (x1 / x2) (y1 / y2)"
proof -
  define A :: rat where "A = (1 + 1 / 2 ^ 53) ^ m"
  define B :: rat where "B = (1 + 1 / 2 ^ 53) ^ n"
  have A: "0 < A" and B: "0 < B" by (simp_all add: A_def B_def)
  have AB: "(1 + 1 / 2 ^ 53) ^ (m + n) = A * B" by (simp add: A_def B_def power_add)
  from assms have 1: "x1 / A \<le> y1" "y1 \<le> x1 * A" "x2 / B \<le> y2" "y2 \<le> x2 * B"
    by (simp_all add: near_def A_def B_def)
  have lo1: "0 \<le> x1 / A" and lo2: "0 < x2 / B" using assms A B by simp_all
  have y2: "0 < y2" using 1 lo2 by linarith
  have "(x1 / A) / (x2 * B) \<le> y1 / y2"
    using 1 lo1 y2 by (intro frac_le) linarith+
  moreover have "y1 / y2 \<le> (x1 * A) / (x2 / B)"
    using 1 lo1 lo2 by (intro frac_le) linarith+
  ultimately show ?thesis
    unfolding near_def AB using A B by (simp add: field_simps)
qed

lemma near_fl:
  assumes "near n x z" "\<bar>y - z\<bar> \<le> z / 2 ^ 53" "0 \<le> x"
  shows "near (n + 2) x y"
proof -
  define E :: rat where "E = 1 + 1 / 2 ^ 53"
  define A :: rat where "A = E ^ n"
  have E: "1 < E" by (simp add: E_def)
  have A: "0 < A" using E by (simp add: A_def)
  from assms have 1: "x / A \<le> z" "z \<le> x * A"
    by (simp_all add: near_def A_def E_def)
  have z: "0 \<le> z" using 1 assms A by (meson divide_nonneg_pos order_trans)
  from assms(2) have d: "y - z \<le> z / 2 ^ 53" "z - y \<le> z / 2 ^ 53" by linarith+
  have up: "y \<le> z * E" using d(1) by (simp add: E_def algebra_simps)
  have "1 \<le> E * E * (1 - 1 / 2 ^ 53)" by (simp add: E_def)
  then have "1 / (E * E) \<le> 1 - 1 / 2 ^ 53" using E by (simp add: field_simps)
  then have "z * (1 / (E * E)) \<le> z * (1 - 1 / 2 ^ 53)" using z by (rule mult_left_mono)
  then have a: "z / (E * E) \<le> z * (1 - 1 / 2 ^ 53)"
    by (simp only: times_divide_eq_right mult_1_right)
  have b: "z * (1 - 1 / 2 ^ 53) \<le> y" using d(2) by (simp add: algebra_simps)
  from a b have low: "z / (E * E) \<le> y" by (rule order_trans)
  have "x / (A * (E * E)) = (x / A) / (E * E)" by simp
  also have "\<dots> \<le> z / (E * E)" using 1 E by (intro divide_right_mono) simp_all
  finally have lo: "x / (A * (E * E)) \<le> y" using low by linarith
  have "y \<le> z * E" by (rule up)
  also have "\<dots> \<le> (x * A) * E" using 1 E by (intro mult_right_mono) simp_all
  also have "\<dots> \<le> (x * A) * (E * E)"
    using E assms(3) A by (intro mult_left_mono) simp_all
  finally have hi: "y \<le> x * (A * (E * E))" by (simp add: mult.assoc)
  have P: "E ^ (n + 2) = A * (E * E)" by (simp add: A_def power_add power2_eq_square)
  show ?thesis unfolding near_def E_def [symmetric] P by (intro conjI lo hi)
qed


lemma near_mono:
  assumes "near m x y" "m \<le> n" "0 \<le> x"
  shows "near n x y"
proof -
  define E :: rat where "E = 1 + 1 / 2 ^ 53"
  have E: "1 \<le> E" by (simp add: E_def)
  have mn: "E ^ m \<le> E ^ n" using assms(2) E by (rule power_increasing)
  have pos: "0 < E ^ n * E ^ m" using E by simp
  from assms(1) have 1: "x / E ^ m \<le> y" "y \<le> x * E ^ m" by (simp_all add: near_def E_def)
  have "x / E ^ n \<le> x / E ^ m" using mn assms(3) pos by (rule divide_left_mono)
  moreover have "x * E ^ m \<le> x * E ^ n" using mn assms(3) by (rule mult_left_mono)
  ultimately show ?thesis unfolding near_def E_def [symmetric] using 1 by linarith
qed

lemma twelve_roundings:
  "(1 + 1 / 2 ^ 53 :: rat) ^ 12 \<le> 1 + 1 / 2 ^ 49"
  "1 - 1 / 2 ^ 49 \<le> 1 / (1 + 1 / 2 ^ 53 :: rat) ^ 12"
  by (simp_all add: power_divide)

lemma near_tol:
  assumes "near n x y" "n \<le> 12" "0 \<le> x"
  shows "\<bar>y - x\<bar> \<le> x / 2 ^ 49"
proof -
  from assms have "near 12 x y" by (rule near_mono)
  then have 1: "x / (1 + 1 / 2 ^ 53) ^ 12 \<le> y" "y \<le> x * (1 + 1 / 2 ^ 53) ^ 12"
    by (simp_all only: near_def)
  have "x * (1 + 1 / 2 ^ 53) ^ 12 \<le> x * (1 + 1 / 2 ^ 49)"
    using twelve_roundings(1) assms(3) by (rule mult_left_mono)
  moreover have "x * (1 + 1 / 2 ^ 49) = x + x / 2 ^ 49"
    by (simp only: distrib_left mult_1_right times_divide_eq_right)
  ultimately have hi: "y \<le> x + x / 2 ^ 49" using 1(2) by linarith
  have "x * (1 - 1 / 2 ^ 49) \<le> x * (1 / (1 + 1 / 2 ^ 53) ^ 12)"
    using twelve_roundings(2) assms(3) by (rule mult_left_mono)
  moreover have "x * (1 - 1 / 2 ^ 49) = x - x / 2 ^ 49"
    by (simp only: right_diff_distrib mult_1_right times_divide_eq_right)
  moreover have "x * (1 / (1 + 1 / 2 ^ 53) ^ 12) = x / (1 + 1 / 2 ^ 53) ^ 12"
    by (simp only: mult_1_right times_divide_eq_right)
  ultimately have lo: "x - x / 2 ^ 49 \<le> y" using 1(1) by linarith
  from lo hi show ?thesis by linarith
qed

lemma near_le2:
  assumes "near n x y" "n \<le> 12" "0 \<le> x"
  shows "x / 2 \<le> y \<and> y \<le> 2 * x"
proof -
  have "\<bar>y - x\<bar> \<le> x / 2 ^ 49" using assms by (rule near_tol)
  moreover have "x / 2 ^ 49 \<le> x / 2" by (rule divide_left_mono) (use assms(3) in simp_all)
  ultimately show ?thesis by linarith
qed

lemma binary64_window:
  assumes "1 / 10 ^ 30 \<le> x" "x \<le> 10 ^ 30"
  shows "\<exists>y. binary64 x = Fin y \<and> \<bar>y - x\<bar> \<le> x / 2 ^ 53"
proof (rule binary64_near)
  have "pow2 (- 1022) \<le> 1 / 10 ^ 30" by (simp add: pow2_def)
  then show "pow2 (- 1022) \<le> x" using assms(1) by (rule order_trans)
  have "(10 ^ 30 :: rat) \<le> pow2 1022" by (simp add: pow2_def)
  with assms(2) show "x \<le> pow2 1022" by (rule order_trans)
qed

lemma binary64_after:
  assumes z: "near k x z" "k \<le> 10" "0 \<le> x"
    and w: "x = 0 \<or> (1 / 10 ^ 29 \<le> x \<and> x \<le> 10 ^ 29)"
  shows "\<exists>y. binary64 z = Fin y \<and> near (k + 2) x y"
proof (cases "x = 0")
  case True
  with z(1) have "z = 0" by (simp add: near_zero)
  then show ?thesis using True by (simp add: binary64_def near_def)
next
  case False
  with w have x: "1 / 10 ^ 29 \<le> x" "x \<le> 10 ^ 29" by simp_all
  have "k \<le> 12" using z(2) by simp
  with z(1) have "x / 2 \<le> z \<and> z \<le> 2 * x" using z(3) by (rule near_le2)
  then have "1 / 10 ^ 30 \<le> z" "z \<le> 10 ^ 30" using x by simp_all
  then obtain y where y: "binary64 z = Fin y" "\<bar>y - z\<bar> \<le> z / 2 ^ 53"
    using binary64_window by blast
  from z(1) y(2) z(3) have "near (k + 2) x y" by (rule near_fl)
  with y(1) show ?thesis by blast
qed

lemma jmul_near:
  assumes "near m x1 y1" "near n x2 y2" "0 \<le> x1" "0 \<le> x2" "m + n \<le> 10"
    and w: "x1 * x2 = 0 \<or> (1 / 10 ^ 29 \<le> x1 * x2 \<and> x1 * x2 \<le> 10 ^ 29)"
  shows "\<exists>y. jmul binary64 (Fin y1) (Fin y2) = Fin y \<and> near (m + n + 2) (x1 * x2) y"
proof -
  have "near (m + n) (x1 * x2) (y1 * y2)" using assms(1-4) by (rule near_mult)
  moreover have "0 \<le> x1 * x2" using assms(3,4) by simp
  ultimately show ?thesis using binary64_after [of "m + n" "x1 * x2" "y1 * y2"] assms(5) w
    by simp
qed

lemma jdiv_near:
  assumes "near m x1 y1" "near n x2 y2" "0 \<le> x1" "0 < x2" "m + n \<le> 10"
    and w: "x1 = 0 \<or> (1 / 10 ^ 29 \<le> x1 / x2 \<and> x1 / x2 \<le> 10 ^ 29)"
  shows "\<exists>y. jdiv binary64 (Fin y1) (Fin y2) = Fin y \<and> near (m + n + 2) (x1 / x2) y"
proof -
  have "near (m + n) (x1 / x2) (y1 / y2)" using assms(1-4) by (rule near_div)
  moreover have "0 \<le> x1 / x2" using assms(3,4) by simp
  moreover have "0 < y2" using assms(2,4) by (rule near_pos)
  ultimately show ?thesis using binary64_after [of "m + n" "x1 / x2" "y1 / y2"] assms(5) w
    by auto
qed

section \<open>Editing the quantity of an added food\<close>

text \<open>
  C2. The food of 100 g has its quantity field cleared, which sets quantity and nutrients
  to zero; the next quantity typed divides zero by zero and every nutrient becomes NaN.
\<close>

theorem rescale_after_zero_quantity:
  "foods (updateFoodQuantity binary64 (str ''a'') []
       (modal [food (str ''a'') (Fin 100) (Fin 124) (Fin 2)]))
     = [food (str ''a'') (Fin 0) (Fin 0) (Fin 0)]
   \<and> foods (updateFoodQuantity binary64 (str ''a'') (str ''150'')
       (modal [food (str ''a'') (Fin 0) (Fin 0) (Fin 0)]))
     = [food (str ''a'') (Fin 150) NaN NaN \<lparr> carbs := NaN, fats := NaN \<rparr>]"
  by (simp add: foods_update parseFloat_quantities parseFloat_empty or_else_def rescale_def
        modal_def food_def Let_def binary64_values)

text \<open>
  One change of quantity in binary64. The nutrient stored is a whole number (calories) or
  the double nearest to a number of tenths (protein, carbohydrate, fat); the value
  computed before \<open>Math.round\<close> went through at most six roundings, so the whole number
  that comes out is within \<open>1/2\<close>, and a relative \<open>2\<^sup>-\<^sup>4\<^sup>9\<close>, of the exact rescaled value.
\<close>

lemma window_div:
  fixes x y :: rat
  assumes "a \<le> x" "x \<le> b" "c \<le> y" "y \<le> d" "0 < a" "0 < c"
  shows "a / d \<le> x / y \<and> x / y \<le> b / c"
proof
  show "a / d \<le> x / y" using assms by (intro frac_le) linarith+
  show "x / y \<le> b / c" using assms by (intro frac_le) linarith+
qed

lemma window_mult:
  fixes x y :: rat
  assumes "a \<le> x" "x \<le> b" "c \<le> y" "y \<le> d" "0 < a" "0 < c"
  shows "a * c \<le> x * y \<and> x * y \<le> b * d"
proof
  show "a * c \<le> x * y" using assms by (intro mult_mono) linarith+
  show "x * y \<le> b * d" using assms by (intro mult_mono) linarith+
qed

lemma multiplier_near:
  assumes "1 / 1000 \<le> q" "q \<le> 100000"
  shows "\<exists>m. jdiv binary64 (Fin q) (Fin 100) = Fin m \<and> near 2 (q / 100) m"
proof -
  have w: "q = 0 \<or> (1 / 10 ^ 29 \<le> q / 100 \<and> q / 100 \<le> 10 ^ 29)" using assms by simp
  have "\<exists>y. jdiv binary64 (Fin q) (Fin 100) = Fin y \<and> near (0 + 0 + 2) (q / 100) y"
    by (rule jdiv_near [OF near_refl near_refl _ _ _ w]) (use assms in simp_all)
  then show ?thesis by (simp only: add_0)
qed

lemma scale_near:
  assumes v: "near k x v" "0 \<le> x" "k \<le> 2" and x: "x = 0 \<or> (1 / 10 \<le> x \<and> x \<le> 10 ^ 13)"
    and q: "1 / 1000 \<le> q" "q \<le> 100000" and q': "1 / 1000 \<le> q'" "q' \<le> 100000"
  shows "\<exists>b. jmul binary64 (jdiv binary64 (Fin v) (jdiv binary64 (Fin q) (Fin 100)))
                 (jdiv binary64 (Fin q') (Fin 100)) = Fin b
             \<and> near (k + 8) (x * q' / q) b"
proof -
  obtain mo where mo: "jdiv binary64 (Fin q) (Fin 100) = Fin mo" "near 2 (q / 100) mo"
    using multiplier_near [OF q] by blast
  obtain mn where mn: "jdiv binary64 (Fin q') (Fin 100) = Fin mn" "near 2 (q' / 100) mn"
    using multiplier_near [OF q'] by blast
  have qw: "1 / 10 ^ 5 \<le> q / 100" "q / 100 \<le> 10 ^ 3" "0 < q / 100" using q by simp_all
  have qw': "1 / 10 ^ 5 \<le> q' / 100" "q' / 100 \<le> 10 ^ 3" "0 \<le> q' / 100" using q' by simp_all
  define X where "X = x / (q / 100)"
  have X0: "0 \<le> X" using v(2) qw(3) by (simp add: X_def)
  have Xw: "1 / 10 ^ 4 \<le> X \<and> X \<le> 10 ^ 18" if "x \<noteq> 0"
  proof -
    from that x have "1 / 10 \<le> x" "x \<le> 10 ^ 13" by simp_all
    then have "(1 / 10) / 10 ^ 3 \<le> x / (q / 100) \<and> x / (q / 100) \<le> 10 ^ 13 / (1 / 10 ^ 5)"
      using qw(1,2) by (intro window_div) simp_all
    then show ?thesis by (simp add: X_def)
  qed
  have "x = 0 \<or> (1 / 10 ^ 29 \<le> X \<and> X \<le> 10 ^ 29)"
    using Xw by (cases "x = 0") auto
  moreover have "k + 2 \<le> 10" using v(3) by simp
  ultimately obtain a where a: "jdiv binary64 (Fin v) (Fin mo) = Fin a" "near (k + 2 + 2) X a"
    using jdiv_near [OF v(1) mo(2) v(2) qw(3)] unfolding X_def by blast
  have Ww: "1 / 10 ^ 9 \<le> X * (q' / 100) \<and> X * (q' / 100) \<le> 10 ^ 21" if "x \<noteq> 0"
  proof -
    from that Xw have "1 / 10 ^ 4 \<le> X" "X \<le> 10 ^ 18" by simp_all
    then have "(1 / 10 ^ 4) * (1 / 10 ^ 5) \<le> X * (q' / 100) \<and> X * (q' / 100) \<le> 10 ^ 18 * 10 ^ 3"
      using qw'(1,2) by (intro window_mult) simp_all
    then show ?thesis by simp
  qed
  have "x = 0 \<Longrightarrow> X = 0" by (simp add: X_def)
  then have "X * (q' / 100) = 0 \<or> (1 / 10 ^ 29 \<le> X * (q' / 100) \<and> X * (q' / 100) \<le> 10 ^ 29)"
  proof (cases "x = 0")
    case True
    then have "X = 0" by (simp add: X_def)
    then show ?thesis by simp
  next
    case False
    define W where "W = X * (q' / 100)"
    from Ww [OF False] have "1 / 10 ^ 9 \<le> W \<and> W \<le> 10 ^ 21" by (simp only: W_def)
    then have "1 / 10 ^ 29 \<le> W \<and> W \<le> 10 ^ 29" by simp
    then show ?thesis unfolding W_def by (rule disjI2)
  qed
  moreover have "k + 2 + 2 + 2 \<le> 10" using v(3) by simp
  ultimately obtain b where b: "jmul binary64 (Fin a) (Fin mn) = Fin b"
      "near (k + 2 + 2 + 2 + 2) (X * (q' / 100)) b"
    using jmul_near [OF a(2) mn(2) X0 qw'(3)] by blast
  have e1: "X * (q' / 100) = x * q' / q" using qw(3) by (simp add: X_def)
  have e2: "k + 2 + 2 + 2 + 2 = k + 8" by simp
  from b(2) have "near (k + 8) (x * q' / q) b" unfolding e1 e2 .
  then show ?thesis using mo(1) mn(1) a(1) b(1) by simp
qed

lemma ratio_window:
  fixes x q q' :: rat
  assumes "1 / 10 \<le> x" "x \<le> 10 ^ 13" "1 / 1000 \<le> q" "q \<le> 100000" "1 / 1000 \<le> q'" "q' \<le> 100000"
  shows "1 / 10 ^ 9 \<le> x * q' / q \<and> x * q' / q \<le> 10 ^ 21"
proof -
  have "(1 / 10) * (1 / 1000) \<le> x * q' \<and> x * q' \<le> 10 ^ 13 * 100000"
    using assms by (intro window_mult) simp_all
  then have "((1 / 10) * (1 / 1000)) / 100000 \<le> x * q' / q \<and> x * q' / q \<le> (10 ^ 13 * 100000) / (1 / 1000)"
    using assms by (intro window_div) simp_all
  then show ?thesis by simp
qed

lemma calories_step:
  fixes C :: int
  assumes C: "0 \<le> C" "C \<le> 10 ^ 13"
    and q: "1 / 1000 \<le> q" "q \<le> 100000" and q': "1 / 1000 \<le> q'" "q' \<le> 100000"
  shows "\<exists>C1. jround (jmul binary64 (jdiv binary64 (Fin (of_int C)) (jdiv binary64 (Fin q) (Fin 100)))
                 (jdiv binary64 (Fin q') (Fin 100))) = Fin (of_int C1)
             \<and> 0 \<le> C1
             \<and> \<bar>of_int C1 - of_int C * q' / q\<bar> \<le> 1 / 2 + (of_int C * q' / q) / 2 ^ 49"
proof -
  define x :: rat where "x = of_int C"
  have x0: "0 \<le> x" using C(1) by (simp add: x_def)
  have "(of_int C :: rat) \<le> of_int (10 ^ 13)" using C(2) by (simp only: of_int_le_iff)
  then have xhi: "x \<le> 10 ^ 13" by (simp add: x_def)
  have xw: "x = 0 \<or> (1 / 10 \<le> x \<and> x \<le> 10 ^ 13)"
  proof (cases "C = 0")
    case True then show ?thesis by (simp add: x_def)
  next
    case False
    with C(1) have "1 \<le> C" by simp
    then have "(1 :: rat) \<le> of_int C" by simp
    then show ?thesis using xhi by (simp add: x_def)
  qed
  obtain b where b: "jmul binary64 (jdiv binary64 (Fin x) (jdiv binary64 (Fin q) (Fin 100)))
                 (jdiv binary64 (Fin q') (Fin 100)) = Fin b" "near (0 + 8) (x * q' / q) b"
    using scale_near [OF near_refl x0 _ xw q q'] by auto
  have W0: "0 \<le> x * q' / q" using x0 q q' by simp
  have "\<bar>b - x * q' / q\<bar> \<le> (x * q' / q) / 2 ^ 49" using b(2) _ W0 by (rule near_tol) simp
  moreover have b0: "0 \<le> b" using b(2) W0 by (rule near_nonneg)
  moreover have "\<bar>of_int \<lfloor>b + 1 / 2\<rfloor> - b\<bar> \<le> 1 / 2" by (rule round_near)
  moreover have "0 \<le> \<lfloor>b + 1 / 2\<rfloor>" using b0 by simp
  ultimately have "0 \<le> \<lfloor>b + 1 / 2\<rfloor>
      \<and> \<bar>of_int \<lfloor>b + 1 / 2\<rfloor> - x * q' / q\<bar> \<le> 1 / 2 + (x * q' / q) / 2 ^ 49"
    by linarith
  moreover have "jround (jmul binary64 (jdiv binary64 (Fin x) (jdiv binary64 (Fin q) (Fin 100)))
                 (jdiv binary64 (Fin q') (Fin 100))) = Fin (of_int \<lfloor>b + 1 / 2\<rfloor>)"
    by (simp only: b(1) jround.simps)
  ultimately show ?thesis unfolding x_def by blast
qed

lemma macro_step:
  fixes P :: int
  assumes P: "0 \<le> P" "P \<le> 10 ^ 13"
    and q: "1 / 1000 \<le> q" "q \<le> 100000" and q': "1 / 1000 \<le> q'" "q' \<le> 100000"
  shows "\<exists>P1. jdiv binary64 (jround (jmul binary64
                 (jmul binary64 (jdiv binary64 (binary64 (of_int P / 10)) (jdiv binary64 (Fin q) (Fin 100)))
                    (jdiv binary64 (Fin q') (Fin 100))) (Fin 10))) (Fin 10)
               = binary64 (of_int P1 / 10)
             \<and> 0 \<le> P1
             \<and> \<bar>of_int P1 - of_int P * q' / q\<bar> \<le> 1 / 2 + (of_int P * q' / q) / 2 ^ 49"
proof -
  define x :: rat where "x = of_int P / 10"
  have x0: "0 \<le> x" using P(1) by (simp add: x_def)
  have "(of_int P :: rat) \<le> of_int (10 ^ 13)" using P(2) by (simp only: of_int_le_iff)
  then have xhi: "x \<le> 10 ^ 13" by (simp add: x_def)
  have xw: "x = 0 \<or> (1 / 10 \<le> x \<and> x \<le> 10 ^ 13)"
  proof (cases "P = 0")
    case True then show ?thesis by (simp add: x_def)
  next
    case False
    with P(1) have "1 \<le> P" by simp
    then have "(1 :: rat) \<le> of_int P" by simp
    then show ?thesis using xhi by (simp add: x_def)
  qed
  then have "x = 0 \<or> (1 / 10 ^ 29 \<le> x \<and> x \<le> 10 ^ 29)" by auto
  then obtain v where v: "binary64 x = Fin v" "near (0 + 2) x v"
    using binary64_after [OF near_refl _ x0] by auto
  obtain b where b: "jmul binary64 (jdiv binary64 (Fin v) (jdiv binary64 (Fin q) (Fin 100)))
                 (jdiv binary64 (Fin q') (Fin 100)) = Fin b" "near (0 + 2 + 8) (x * q' / q) b"
    using scale_near [OF v(2) x0 _ xw q q'] by auto
  have W0: "0 \<le> x * q' / q" using x0 q q' by simp
  have Ww: "x * q' / q * 10 = 0 \<or> (1 / 10 ^ 29 \<le> x * q' / q * 10 \<and> x * q' / q * 10 \<le> 10 ^ 29)"
  proof (cases "x = 0")
    case True then show ?thesis by simp
  next
    case False
    with xw have "1 / 10 \<le> x" "x \<le> 10 ^ 13" by simp_all
    then have "1 / 10 ^ 9 \<le> x * q' / q \<and> x * q' / q \<le> 10 ^ 21" using q q' by (rule ratio_window)
    moreover define W where "W = x * q' / q"
    ultimately have "1 / 10 ^ 9 \<le> W \<and> W \<le> 10 ^ 21" by simp
    then have "1 / 10 ^ 29 \<le> W * 10 \<and> W * 10 \<le> 10 ^ 29" by simp
    then show ?thesis unfolding W_def by (rule disjI2)
  qed
  obtain t where t: "jmul binary64 (Fin b) (Fin 10) = Fin t" "near (0 + 2 + 8 + 0 + 2) (x * q' / q * 10) t"
    using jmul_near [OF b(2) near_refl W0 _ _ Ww] by auto
  have T: "x * q' / q * 10 = of_int P * q' / q" by (simp add: x_def)
  have T0: "0 \<le> of_int P * q' / q" using P(1) q q' by simp
  have "\<bar>t - of_int P * q' / q\<bar> \<le> (of_int P * q' / q) / 2 ^ 49"
    using t(2) _ T0 unfolding T by (rule near_tol) simp
  moreover have t0: "0 \<le> t" using t(2) T0 unfolding T by (rule near_nonneg)
  moreover have "\<bar>of_int \<lfloor>t + 1 / 2\<rfloor> - t\<bar> \<le> 1 / 2" by (rule round_near)
  moreover have "0 \<le> \<lfloor>t + 1 / 2\<rfloor>" using t0 by simp
  ultimately have "0 \<le> \<lfloor>t + 1 / 2\<rfloor>
      \<and> \<bar>of_int \<lfloor>t + 1 / 2\<rfloor> - of_int P * q' / q\<bar> \<le> 1 / 2 + (of_int P * q' / q) / 2 ^ 49"
    by linarith
  moreover have "jdiv binary64 (jround (jmul binary64
                 (jmul binary64 (jdiv binary64 (binary64 x) (jdiv binary64 (Fin q) (Fin 100)))
                    (jdiv binary64 (Fin q') (Fin 100))) (Fin 10))) (Fin 10)
               = binary64 (of_int \<lfloor>t + 1 / 2\<rfloor> / 10)"
    by (simp only: v(1) b(1) t(1) jround.simps) simp
  ultimately show ?thesis unfolding x_def by blast
qed

lemma first_bound:
  fixes c q a :: rat
  assumes c: "0 \<le> c" "c \<le> 10 ^ 6" and q: "1 / 1000 \<le> q" "q \<le> 100000"
    and a: "\<bar>a - c * 200 / q\<bar> \<le> 1 / 2 + (c * 200 / q) / 2 ^ 49"
  shows "a \<le> 10 ^ 12"
proof -
  define X where "X = c * 200 / q"
  have "c * 200 / q \<le> 10 ^ 6 * 200 / (1 / 1000)"
    using c q by (intro frac_le mult_right_mono) simp_all
  then have 5: "X \<le> 2 * 10 ^ 11" by (simp add: X_def)
  then have "X / 2 ^ 49 \<le> (2 * 10 ^ 11) / 2 ^ 49" by (rule divide_right_mono) simp
  with 5 a show "a \<le> 10 ^ 12" unfolding X_def [symmetric] by (simp add: abs_le_iff)
qed

lemma drift_bound:
  fixes c q a r :: rat
  assumes c: "0 \<le> c" "c \<le> 10 ^ 6" and q: "1 / 1000 \<le> q" "q \<le> 100000"
    and a: "\<bar>a - c * 200 / q\<bar> \<le> 1 / 2 + (c * 200 / q) / 2 ^ 49"
    and r: "\<bar>r - a * q / 200\<bar> \<le> 1 / 2 + (a * q / 200) / 2 ^ 49"
  shows "\<bar>r - c\<bar> \<le> 1 / 2 + q / 400 + 1 / 10 ^ 8"
proof -
  have q0: "0 < q" using q by simp
  define X where "X = c * 200 / q"
  define Y where "Y = a * q / 200"
  have Xc: "X * (q / 200) = c" using q0 by (simp add: X_def)
  have "Y - c = (a - X) * (q / 200)" using q0 by (simp add: X_def Y_def field_simps)
  then have "\<bar>Y - c\<bar> = \<bar>a - X\<bar> * \<bar>q / 200\<bar>" by (simp only: abs_mult)
  also have "\<dots> = \<bar>a - X\<bar> * (q / 200)" using q0 by simp
  also have "\<dots> \<le> (1 / 2 + X / 2 ^ 49) * (q / 200)"
    using a q0 unfolding X_def [symmetric] by (intro mult_right_mono) simp_all
  also have "\<dots> = q / 400 + (X * (q / 200)) / 2 ^ 49" by (simp add: algebra_simps)
  finally have 1: "\<bar>Y - c\<bar> \<le> q / 400 + c / 2 ^ 49" unfolding Xc .
  have 2: "c / 2 ^ 49 \<le> 10 ^ 6 / 2 ^ 49" using c(2) by (rule divide_right_mono) simp
  have "Y \<le> 10 ^ 6 + 251" using 1 2 c q by (simp add: abs_le_iff) 
  then have 3: "Y / 2 ^ 49 \<le> (10 ^ 6 + 251) / 2 ^ 49" by (rule divide_right_mono) simp
  have 4: "\<bar>r - Y\<bar> \<le> 1 / 2 + Y / 2 ^ 49" using r by (simp only: Y_def)
  from 1 2 3 4 show "\<bar>r - c\<bar> \<le> 1 / 2 + q / 400 + 1 / 10 ^ 8" by simp
qed

lemma round_trip_field:
  fixes C C1 C2 :: int and q :: rat
  assumes C: "0 \<le> C" "C \<le> 10 ^ 6" and q: "1 / 1000 \<le> q" "q \<le> 100000"
    and a: "\<bar>of_int C1 - of_int C * 200 / q\<bar> \<le> 1 / 2 + (of_int C * 200 / q) / 2 ^ 49"
  shows "C1 \<le> 10 ^ 13"
    and "\<bar>of_int C2 - of_int C1 * q / 200\<bar> \<le> 1 / 2 + (of_int C1 * q / 200) / 2 ^ 49
         \<Longrightarrow> \<bar>of_int C2 - of_int C\<bar> \<le> 1 / 2 + q / 400 + 1 / 10 ^ 8"
proof -
  have c: "(0 :: rat) \<le> of_int C" using C(1) by simp
  have "(of_int C :: rat) \<le> of_int (10 ^ 6)" using C(2) by (simp only: of_int_le_iff)
  then have c': "(of_int C :: rat) \<le> 10 ^ 6" by simp
  have "(of_int C1 :: rat) \<le> 10 ^ 12" using c c' q a by (rule first_bound)
  then have "(of_int C1 :: rat) \<le> of_int (10 ^ 13)" by simp
  then show "C1 \<le> 10 ^ 13" by (simp only: of_int_le_iff)
  show "\<bar>of_int C2 - of_int C\<bar> \<le> 1 / 2 + q / 400 + 1 / 10 ^ 8"
    if "\<bar>of_int C2 - of_int C1 * q / 200\<bar> \<le> 1 / 2 + (of_int C1 * q / 200) / 2 ^ 49"
    using c c' q a that by (rule drift_bound)
qed

lemma within_one:
  fixes a b :: int
  assumes "\<bar>of_int a - of_int b\<bar> \<le> (1 / 2 + q / 400 + 1 / 10 ^ 8 :: rat)" "q \<le> 200"
  shows "\<bar>a - b\<bar> \<le> 1"
proof -
  have "(of_int \<bar>a - b\<bar> :: rat) < of_int 2" using assms by simp
  then have "\<bar>a - b\<bar> < 2" by (simp only: of_int_less_iff)
  then show ?thesis by simp
qed

lemma round_trip_150:
  "rescale binary64 (rescale binary64
       \<lparr> calories = Fin 186, protein = binary64 (38 / 10), carbs = binary64 (387 / 10),
         fats = binary64 (15 / 10), id_food = i, name = n, quantity = Fin 150 \<rparr> (Fin 200)) (Fin 150)
   = \<lparr> calories = Fin 186, protein = binary64 (38 / 10), carbs = binary64 (387 / 10),
         fats = binary64 (15 / 10), id_food = i, name = n, quantity = Fin 150 \<rparr>"
  by (simp add: rescale_def Let_def binary64_values)
     (simp add: binary64_eval)

text \<open>
  C9. In binary64, take a food whose calories are a whole number up to \<open>10\<^sup>6\<close> and whose
  protein, carbohydrate and fat are the doubles nearest to a whole number, up to \<open>10\<^sup>6\<close>, of
  tenths, at a quantity \<open>q\<close> between 0.001 g and 100 kg. Set to 200 g and back to \<open>q\<close>, it
  has again whole-number calories \<open>C'\<close> and macros that are the doubles nearest to \<open>P'\<close>,
  \<open>B'\<close>, \<open>G'\<close> tenths; \<open>C'\<close> is within \<open>1/2 + q/400 + 10\<^sup>-\<^sup>8\<close> of the original calories and
  \<open>P'\<close>, \<open>B'\<close>, \<open>G'\<close> within as much of the original numbers of tenths. For \<open>q \<le> 200\<close> this is
  at most 1 kcal and at most one tenth of a gram.
\<close>

theorem rescale_round_trip:
  fixes q :: rat and C P B G :: int
  assumes q: "1 / 1000 \<le> q" "q \<le> 100000"
    and C: "0 \<le> C" "C \<le> 10 ^ 6" and P: "0 \<le> P" "P \<le> 10 ^ 6"
    and B: "0 \<le> B" "B \<le> 10 ^ 6" and G: "0 \<le> G" "G \<le> 10 ^ 6"
  shows "\<exists>C' P' B' G' :: int.
     rescale binary64 (rescale binary64
         \<lparr> calories = Fin (of_int C), protein = binary64 (of_int P / 10),
           carbs = binary64 (of_int B / 10), fats = binary64 (of_int G / 10),
           id_food = i, name = n, quantity = Fin q \<rparr> (Fin 200)) (Fin q)
       = \<lparr> calories = Fin (of_int C'), protein = binary64 (of_int P' / 10),
           carbs = binary64 (of_int B' / 10), fats = binary64 (of_int G' / 10),
           id_food = i, name = n, quantity = Fin q \<rparr>
     \<and> \<bar>of_int C' - of_int C\<bar> \<le> 1 / 2 + q / 400 + 1 / 10 ^ 8
     \<and> \<bar>of_int P' - of_int P\<bar> \<le> 1 / 2 + q / 400 + 1 / 10 ^ 8
     \<and> \<bar>of_int B' - of_int B\<bar> \<le> 1 / 2 + q / 400 + 1 / 10 ^ 8
     \<and> \<bar>of_int G' - of_int G\<bar> \<le> 1 / 2 + q / 400 + 1 / 10 ^ 8
     \<and> (q \<le> 200 \<longrightarrow>
          \<bar>C' - C\<bar> \<le> 1 \<and> \<bar>P' - P\<bar> \<le> 1 \<and> \<bar>B' - B\<bar> \<le> 1 \<and> \<bar>G' - G\<bar> \<le> 1)"
proof -
  have q2: "1 / 1000 \<le> (200 :: rat)" "(200 :: rat) \<le> 100000" by simp_all
  have big: "k \<le> 10 ^ 6 \<Longrightarrow> k \<le> 10 ^ 13" for k :: int by simp
  obtain C1 where C1: "jround (jmul binary64 (jdiv binary64 (Fin (of_int C)) (jdiv binary64 (Fin q) (Fin 100)))
                 (jdiv binary64 (Fin 200) (Fin 100))) = Fin (of_int C1)" "0 \<le> C1"
      "\<bar>of_int C1 - of_int C * 200 / q\<bar> \<le> 1 / 2 + (of_int C * 200 / q) / 2 ^ 49"
    using calories_step [OF C(1) big [OF C(2)] q q2] by blast
  obtain P1 where P1: "jdiv binary64 (jround (jmul binary64
                 (jmul binary64 (jdiv binary64 (binary64 (of_int P / 10)) (jdiv binary64 (Fin q) (Fin 100)))
                    (jdiv binary64 (Fin 200) (Fin 100))) (Fin 10))) (Fin 10)
               = binary64 (of_int P1 / 10)" "0 \<le> P1"
      "\<bar>of_int P1 - of_int P * 200 / q\<bar> \<le> 1 / 2 + (of_int P * 200 / q) / 2 ^ 49"
    using macro_step [OF P(1) big [OF P(2)] q q2] by blast
  obtain B1 where B1: "jdiv binary64 (jround (jmul binary64
                 (jmul binary64 (jdiv binary64 (binary64 (of_int B / 10)) (jdiv binary64 (Fin q) (Fin 100)))
                    (jdiv binary64 (Fin 200) (Fin 100))) (Fin 10))) (Fin 10)
               = binary64 (of_int B1 / 10)" "0 \<le> B1"
      "\<bar>of_int B1 - of_int B * 200 / q\<bar> \<le> 1 / 2 + (of_int B * 200 / q) / 2 ^ 49"
    using macro_step [OF B(1) big [OF B(2)] q q2] by blast
  obtain G1 where G1: "jdiv binary64 (jround (jmul binary64
                 (jmul binary64 (jdiv binary64 (binary64 (of_int G / 10)) (jdiv binary64 (Fin q) (Fin 100)))
                    (jdiv binary64 (Fin 200) (Fin 100))) (Fin 10))) (Fin 10)
               = binary64 (of_int G1 / 10)" "0 \<le> G1"
      "\<bar>of_int G1 - of_int G * 200 / q\<bar> \<le> 1 / 2 + (of_int G * 200 / q) / 2 ^ 49"
    using macro_step [OF G(1) big [OF G(2)] q q2] by blast
  note hi = round_trip_field(1) [OF C q C1(3)] round_trip_field(1) [OF P q P1(3)]
    round_trip_field(1) [OF B q B1(3)] round_trip_field(1) [OF G q G1(3)]
  obtain C2 where C2: "jround (jmul binary64 (jdiv binary64 (Fin (of_int C1)) (jdiv binary64 (Fin 200) (Fin 100)))
                 (jdiv binary64 (Fin q) (Fin 100))) = Fin (of_int C2)"
      "\<bar>of_int C2 - of_int C1 * q / 200\<bar> \<le> 1 / 2 + (of_int C1 * q / 200) / 2 ^ 49"
    using calories_step [OF C1(2) hi(1) q2 q] by blast
  obtain P2 where P2: "jdiv binary64 (jround (jmul binary64
                 (jmul binary64 (jdiv binary64 (binary64 (of_int P1 / 10)) (jdiv binary64 (Fin 200) (Fin 100)))
                    (jdiv binary64 (Fin q) (Fin 100))) (Fin 10))) (Fin 10)
               = binary64 (of_int P2 / 10)"
      "\<bar>of_int P2 - of_int P1 * q / 200\<bar> \<le> 1 / 2 + (of_int P1 * q / 200) / 2 ^ 49"
    using macro_step [OF P1(2) hi(2) q2 q] by blast
  obtain B2 where B2: "jdiv binary64 (jround (jmul binary64
                 (jmul binary64 (jdiv binary64 (binary64 (of_int B1 / 10)) (jdiv binary64 (Fin 200) (Fin 100)))
                    (jdiv binary64 (Fin q) (Fin 100))) (Fin 10))) (Fin 10)
               = binary64 (of_int B2 / 10)"
      "\<bar>of_int B2 - of_int B1 * q / 200\<bar> \<le> 1 / 2 + (of_int B1 * q / 200) / 2 ^ 49"
    using macro_step [OF B1(2) hi(3) q2 q] by blast
  obtain G2 where G2: "jdiv binary64 (jround (jmul binary64
                 (jmul binary64 (jdiv binary64 (binary64 (of_int G1 / 10)) (jdiv binary64 (Fin 200) (Fin 100)))
                    (jdiv binary64 (Fin q) (Fin 100))) (Fin 10))) (Fin 10)
               = binary64 (of_int G2 / 10)"
      "\<bar>of_int G2 - of_int G1 * q / 200\<bar> \<le> 1 / 2 + (of_int G1 * q / 200) / 2 ^ 49"
    using macro_step [OF G1(2) hi(4) q2 q] by blast
  note near = round_trip_field(2) [OF C q C1(3) C2(2)] round_trip_field(2) [OF P q P1(3) P2(2)]
    round_trip_field(2) [OF B q B1(3) B2(2)] round_trip_field(2) [OF G q G1(3) G2(2)]
  have s1: "rescale binary64
         \<lparr> calories = Fin (of_int C), protein = binary64 (of_int P / 10),
           carbs = binary64 (of_int B / 10), fats = binary64 (of_int G / 10),
           id_food = i, name = n, quantity = Fin q \<rparr> (Fin 200)
       = \<lparr> calories = Fin (of_int C1), protein = binary64 (of_int P1 / 10),
           carbs = binary64 (of_int B1 / 10), fats = binary64 (of_int G1 / 10),
           id_food = i, name = n, quantity = Fin 200 \<rparr>"
    by (simp add: rescale_def Let_def C1(1) P1(1) B1(1) G1(1) del: jdiv.simps jmul.simps jround.simps)
  have s2: "rescale binary64
         \<lparr> calories = Fin (of_int C1), protein = binary64 (of_int P1 / 10),
           carbs = binary64 (of_int B1 / 10), fats = binary64 (of_int G1 / 10),
           id_food = i, name = n, quantity = Fin 200 \<rparr> (Fin q)
       = \<lparr> calories = Fin (of_int C2), protein = binary64 (of_int P2 / 10),
           carbs = binary64 (of_int B2 / 10), fats = binary64 (of_int G2 / 10),
           id_food = i, name = n, quantity = Fin q \<rparr>"
    by (simp add: rescale_def Let_def C2(1) P2(1) B2(1) G2(1) del: jdiv.simps jmul.simps jround.simps)
  have one: "q \<le> 200 \<longrightarrow>
          \<bar>C2 - C\<bar> \<le> 1 \<and> \<bar>P2 - P\<bar> \<le> 1 \<and> \<bar>B2 - B\<bar> \<le> 1 \<and> \<bar>G2 - G\<bar> \<le> 1"
    using near by (blast intro: within_one)
  show ?thesis
    unfolding s1 s2 using near one by blast
qed

theorem rescale_round_trip_witness:
  "(1 / 1000 :: rat) \<le> 150 \<and> (150 :: rat) \<le> 100000
   \<and> (0 :: int) \<le> 186 \<and> (186 :: int) \<le> 10 ^ 6 \<and> (0 :: int) \<le> 38 \<and> (38 :: int) \<le> 10 ^ 6
   \<and> (0 :: int) \<le> 387 \<and> (387 :: int) \<le> 10 ^ 6 \<and> (0 :: int) \<le> 15 \<and> (15 :: int) \<le> 10 ^ 6
   \<and> (\<exists>C' P' B' G' :: int.
        rescale binary64 (rescale binary64
           \<lparr> calories = Fin 186, protein = binary64 (38 / 10), carbs = binary64 (387 / 10),
             fats = binary64 (15 / 10), id_food = str ''a'', name = str ''x'',
             quantity = Fin 150 \<rparr> (Fin 200)) (Fin 150)
         = \<lparr> calories = Fin (of_int C'), protein = binary64 (of_int P' / 10),
             carbs = binary64 (of_int B' / 10), fats = binary64 (of_int G' / 10),
             id_food = str ''a'', name = str ''x'', quantity = Fin 150 \<rparr>
        \<and> \<bar>C' - 186\<bar> \<le> 1 \<and> \<bar>P' - 38\<bar> \<le> 1 \<and> \<bar>B' - 387\<bar> \<le> 1 \<and> \<bar>G' - 15\<bar> \<le> 1)
   \<and> rescale binary64 (rescale binary64
         \<lparr> calories = Fin 186, protein = binary64 (38 / 10), carbs = binary64 (387 / 10),
           fats = binary64 (15 / 10), id_food = str ''a'', name = str ''x'',
           quantity = Fin 150 \<rparr> (Fin 200)) (Fin 150)
       = \<lparr> calories = Fin 186, protein = binary64 (38 / 10), carbs = binary64 (387 / 10),
           fats = binary64 (15 / 10), id_food = str ''a'', name = str ''x'',
           quantity = Fin 150 \<rparr>"
proof -
  have "\<exists>C' P' B' G' :: int.
        rescale binary64 (rescale binary64
           \<lparr> calories = Fin 186, protein = binary64 (38 / 10), carbs = binary64 (387 / 10),
             fats = binary64 (15 / 10), id_food = str ''a'', name = str ''x'',
             quantity = Fin 150 \<rparr> (Fin 200)) (Fin 150)
         = \<lparr> calories = Fin (of_int C'), protein = binary64 (of_int P' / 10),
             carbs = binary64 (of_int B' / 10), fats = binary64 (of_int G' / 10),
             id_food = str ''a'', name = str ''x'', quantity = Fin 150 \<rparr>
        \<and> \<bar>C' - 186\<bar> \<le> 1 \<and> \<bar>P' - 38\<bar> \<le> 1 \<and> \<bar>B' - 387\<bar> \<le> 1 \<and> \<bar>G' - 15\<bar> \<le> 1"
    using rescale_round_trip [of 150 186 38 387 15 "str ''a''" "str ''x''"]
    by simp blast
  with round_trip_150 [of "str ''a''" "str ''x''"] show ?thesis
    by simp
qed

lemma binary64_hundredth:
  "binary64 (1 / 100) = Fin (5764607523034235 / 576460752303423488)"
  by (simp add: binary64_eval)

text \<open>
  In binary64, 3 kcal and 0.3 g of protein at 1000 g come back from 200 g as 5 kcal and
  0.5 g. And \<open>2\<^sup>1\<^sup>0\<^sup>2\<^sup>3\<close> kcal at 1 g overflow when divided by 0.01: the calories are
  \<open>Infinity\<close> at 200 g and still \<open>Infinity\<close> back at 1 g.
\<close>

theorem rescale_round_trip_counterexample:
  "foods (updateFoodQuantity binary64 (str ''a'') (str ''1000'')
     (updateFoodQuantity binary64 (str ''a'') (str ''200'')
        (modal [food (str ''a'') (Fin 1000) (Fin 3) (binary64 (3 / 10))])))
   = [food (str ''a'') (Fin 1000) (Fin 5) (Fin (1 / 2))]
   \<and> rescale binary64 (rescale binary64
         (food (str ''a'') (Fin 1) (Fin (2 ^ 1023)) (Fin 0)) (Fin 200)) (Fin 1)
     = food (str ''a'') (Fin 1) PInf (Fin 0)"
proof
  show "foods (updateFoodQuantity binary64 (str ''a'') (str ''1000'')
     (updateFoodQuantity binary64 (str ''a'') (str ''200'')
        (modal [food (str ''a'') (Fin 1000) (Fin 3) (binary64 (3 / 10))])))
   = [food (str ''a'') (Fin 1000) (Fin 5) (Fin (1 / 2))]"
    by (simp add: updateFoodQuantity_def parseFloat_quantities or_else_def rescale_def modal_def
          food_def Let_def binary64_values binary64_tenths)
       (simp add: binary64_eval)
  show "rescale binary64 (rescale binary64
         (food (str ''a'') (Fin 1) (Fin (2 ^ 1023)) (Fin 0)) (Fin 200)) (Fin 1)
     = food (str ''a'') (Fin 1) PInf (Fin 0)"
    by (simp add: rescale_def food_def Let_def binary64_values binary64_hundredth)
       (simp add: binary64_eval)
qed

section \<open>Numbers written with a decimal comma\<close>























section \<open>Normalised names\<close>

lemma set_trim: "set (trim s) \<subseteq> set s"
proof -
  have "set (trim s) = set (dropWhile isWS (rev (dropWhile isWS s)))"
    by (simp add: trim_def)
  also have "\<dots> \<subseteq> set (rev (dropWhile isWS s))"
    by (auto dest: set_dropWhileD)
  also have "\<dots> \<subseteq> set s"
    by (auto dest: set_dropWhileD)
  finally show ?thesis .
qed

lemma dropWhile_fixed: "xs = [] \<or> \<not> P (hd xs) \<Longrightarrow> dropWhile P xs = xs"
  by (cases xs) auto

lemma trim_ends:
  "dropWhile isWS (trim s) = trim s" "dropWhile isWS (rev (trim s)) = rev (trim s)"
proof -
  define a where "a = dropWhile isWS s"
  define b where "b = dropWhile isWS (rev a)"
  have t: "trim s = rev b" by (simp add: trim_def a_def b_def)
  have a: "a = [] \<or> \<not> isWS (hd a)"
    unfolding a_def by (metis hd_dropWhile)
  have b: "b = [] \<or> \<not> isWS (hd b)"
    unfolding b_def by (metis hd_dropWhile)
  have "rev a = takeWhile isWS (rev a) @ b"
    by (simp add: b_def)
  then have "a = rev b @ rev (takeWhile isWS (rev a))"
    by (metis rev_append rev_rev_ident)
  then have "rev b \<noteq> [] \<Longrightarrow> hd (rev b) = hd a"
    by (metis hd_append2)
  moreover have "a = [] \<Longrightarrow> b = []"
    by (simp add: b_def)
  ultimately have "rev b = [] \<or> \<not> isWS (hd (rev b))"
    using a by auto
  then show "dropWhile isWS (trim s) = trim s"
    unfolding t by (rule dropWhile_fixed)
  show "dropWhile isWS (rev (trim s)) = rev (trim s)"
    unfolding t using b by (simp add: dropWhile_fixed)
qed

lemma trim_trim: "trim (trim s) = trim s"
  by (simp add: trim_def [of "trim s"] trim_ends)

lemma normalizeText_no_comma: "44 \<notin> set (normalizeText U t)"
proof -
  have "44 \<notin> set (replace_all 44 32 xs)" for xs
    by (auto simp: replace_all_def)
  then show ?thesis
    unfolding normalizeText_def using set_trim by blast
qed

lemma normalizeText_no_mark: "filter isMark (normalizeText U t) = []"
proof -
  have "\<not> isMark c" if "c \<in> set (replace_all 44 32 (filter (\<lambda>c. \<not> isMark c) xs))" for c xs
    using that by (auto simp: replace_all_def isMark_def split: if_splits)
  then have "\<not> isMark c" if "c \<in> set (normalizeText U t)" for c
    using that set_trim unfolding normalizeText_def by blast
  then show ?thesis by (simp add: filter_empty_conv)
qed

lemmas text_eval =
  normalizeText_def latin1_def trim_def replace_all_def isMark_def latin1_lower_def
  latin1_nfd_def latin1_decomposition_def isWS_def str_simps

lemma normalize_examples:
  "normalizeText latin1 (str ''Arroz, Integral Cozido'') = str ''arroz  integral cozido''"
  "normalizeText latin1 [80, 227, 111] = str ''pao''"
  by (simp_all add: text_eval)

text \<open>
  C7. \<open>normalizeText\<close> lower-cases, decomposes, drops the combining marks,
  turns every comma into a space and trims: its result holds no comma and no combining
  mark and is its own trim. On Latin-1 text, \<open>"Arroz, Integral Cozido"\<close> gives
  \<open>"arroz  integral cozido"\<close>, with the two spaces that the comma and the space after it
  leave, and \<open>P\<close>, a with tilde, \<open>o\<close> gives \<open>"pao"\<close>.
\<close>

theorem normalizeText_steps:
  "normalizeText U t =
     trim (replace_all 44 32 (filter (\<lambda>c. \<not> isMark c) (normalizeNFD U (toLowerCase U t))))
   \<and> 44 \<notin> set (normalizeText U t)
   \<and> filter isMark (normalizeText U t) = []
   \<and> trim (normalizeText U t) = normalizeText U t
   \<and> normalizeText latin1 (str ''Arroz, Integral Cozido'') = str ''arroz  integral cozido''
   \<and> normalizeText latin1 [80, 227, 111] = str ''pao''"
  using normalizeText_no_comma [of U t] normalizeText_no_mark [of U t] normalize_examples
  by (simp add: normalizeText_def trim_trim)

text \<open>
  The result is not the name with single spaces: white space is not collapsed.
\<close>

theorem normalizeText_example_counterexample:
  "normalizeText latin1 (str ''Arroz, Integral Cozido'') \<noteq> str ''arroz integral cozido''"
  unfolding normalize_examples by (simp add: str_simps)

section \<open>Searching\<close>

text \<open>
  C6. When the term as typed has fewer than 2 code units, both searches give
  the empty list, whatever the table returned.
\<close>

theorem search_min_length:
  "length term < 2 \<Longrightarrow>
     searchResults (searchFoods U term got s) = [] \<and> searchFoods_select U term got shown = []"
  by (simp add: searchFoods_def searchFoods_select_def)

theorem search_min_length_witness:
  "length (str ''a'') < 2
   \<and> searchResults (searchFoods latin1 (str ''a'') (Rows [taco 2 (str ''Abacate'')]) (modal [])) = []
   \<and> searchFoods_select latin1 (str ''a'') (Rows [taco 2 (str ''Abacate'')]) [] = []"
  using search_min_length [of "str ''a''" latin1 "Rows [taco 2 (str ''Abacate'')]" "modal []" "[]"]
  by (simp add: str_simps)

lemmas search_eval =
  searchFoods_def searchFoods_select_def rank_def searchWords_def split_ws_def matches_def
  compareFoods_def sort_js_def startsWith_def taco_def modal_def Let_def

text \<open>
  The test is on the term as typed: a space and a letter are 2 code units, normalise to
  1, and the search goes ahead.
\<close>

theorem search_min_length_counterexample:
  "length (normalizeText latin1 (str '' a'')) < 2
   \<and> searchResults (searchFoods latin1 (str '' a'') (Rows [taco 2 (str ''Abacate'')]) (modal []))
       = [taco 2 (str ''Abacate'')]
   \<and> searchFoods_select latin1 (str '' a'') (Rows [taco 2 (str ''Abacate'')]) []
       = [taco 2 (str ''Abacate'')]"
  by (simp add: search_eval text_eval)


lemma startsWith_iff: "startsWith s w \<longleftrightarrow> (\<exists>suf. s = w @ suf)"
proof
  assume "startsWith s w"
  then have "s = w @ drop (length w) s"
    by (metis append_take_drop_id startsWith_def)
  then show "\<exists>suf. s = w @ suf" ..
next
  assume "\<exists>suf. s = w @ suf"
  then show "startsWith s w" by (auto simp: startsWith_def)
qed

lemma includes_js_iff: "includes_js s w \<longleftrightarrow> (\<exists>pre suf. s = pre @ w @ suf)"
proof (induction s)
  case Nil
  then show ?case by simp
next
  case (Cons c s)
  show ?case
  proof
    assume "includes_js (c # s) w"
    then consider "startsWith (c # s) w" | "includes_js s w" by auto
    then show "\<exists>pre suf. c # s = pre @ w @ suf"
    proof cases
      case 1
      then obtain suf where "c # s = [] @ w @ suf" by (auto simp: startsWith_iff)
      then show ?thesis by blast
    next
      case 2
      with Cons.IH obtain pre suf where "s = pre @ w @ suf" by blast
      then have "c # s = (c # pre) @ w @ suf" by simp
      then show ?thesis by blast
    qed
  next
    assume "\<exists>pre suf. c # s = pre @ w @ suf"
    then obtain pre suf where eq: "c # s = pre @ w @ suf" by blast
    show "includes_js (c # s) w"
    proof (cases pre)
      case Nil
      with eq have "startsWith (c # s) w"
        unfolding startsWith_iff by auto
      then show ?thesis by simp
    next
      case (Cons p pre')
      with eq have "s = pre' @ w @ suf" by simp
      with Cons.IH show ?thesis by auto
    qed
  qed
qed

lemma matches_iff:
  "matches U words row \<longleftrightarrow>
     (\<forall>w \<in> set words. \<exists>pre suf. normalizeText U (alimento row) = pre @ w @ suf)"
  by (simp add: matches_def list_all_iff includes_js_iff)

lemma mset_insert_js: "mset (insert_js cmp x ys) = add_mset x (mset ys)"
  by (induction ys) auto

lemma mset_sort_js: "mset (sort_js cmp xs) = mset xs"
  unfolding sort_js_def by (induction xs) (auto simp: mset_insert_js)

lemma set_sort_js: "set (sort_js cmp xs) = set xs"
  by (metis mset_sort_js set_mset_mset)

lemma length_sort_js: "length (sort_js cmp xs) = length xs"
  by (metis mset_sort_js size_mset)

lemma rank_sound: "row \<in> set (rank U limit term data) \<Longrightarrow>
    row \<in> set data \<and> matches U (searchWords U term) row"
  by (auto simp: rank_def Let_def set_sort_js dest!: in_set_takeD)

lemma rank_complete:
  "length (filter (matches U (searchWords U term)) data) \<le> limit \<Longrightarrow>
   set (rank U limit term data) = {row \<in> set data. matches U (searchWords U term) row}"
  by (auto simp: rank_def Let_def set_sort_js length_sort_js)

lemma search_is_rank:
  "2 \<le> length term \<Longrightarrow>
     searchResults (searchFoods U term (Rows data) s) = rank U 20 term data
     \<and> searchFoods_select U term (Rows data) shown = rank U 30 term data"
  by (simp add: searchFoods_def searchFoods_select_def)

text \<open>
  C3. Every row of the result is a row of the table whose normalised name holds
  every word of the query as a substring. When no more rows match than the limit, the
  result holds exactly those rows. For a term of at least 2 code units the modal shows
  the ranking with limit 20 and the select with limit 30.
\<close>

theorem search_matches:
  "(row \<in> set (rank U limit term data) \<longrightarrow>
      row \<in> set data
      \<and> (\<forall>w \<in> set (searchWords U term). \<exists>pre suf. normalizeText U (alimento row) = pre @ w @ suf))
   \<and> (length (filter (matches U (searchWords U term)) data) \<le> limit \<longrightarrow>
        (row \<in> set (rank U limit term data) \<longleftrightarrow>
           row \<in> set data
           \<and> (\<forall>w \<in> set (searchWords U term). \<exists>pre suf. normalizeText U (alimento row) = pre @ w @ suf)))
   \<and> (2 \<le> length term \<longrightarrow>
        searchResults (searchFoods U term (Rows data) s) = rank U 20 term data
        \<and> searchFoods_select U term (Rows data) shown = rank U 30 term data)"
proof (intro conjI impI)
  assume "row \<in> set (rank U limit term data)"
  then show "row \<in> set data"
    and "\<forall>w \<in> set (searchWords U term). \<exists>pre suf. normalizeText U (alimento row) = pre @ w @ suf"
    using rank_sound [of row U limit "term" data] by (simp_all add: matches_iff)
next
  assume "length (filter (matches U (searchWords U term)) data) \<le> limit"
  then have "set (rank U limit term data) = {row \<in> set data. matches U (searchWords U term) row}"
    by (rule rank_complete)
  then show "row \<in> set (rank U limit term data) \<longleftrightarrow>
           row \<in> set data
           \<and> (\<forall>w \<in> set (searchWords U term). \<exists>pre suf. normalizeText U (alimento row) = pre @ w @ suf)"
    by (simp add: matches_iff)
next
  assume "2 \<le> length term"
  then show "searchResults (searchFoods U term (Rows data) s) = rank U 20 term data"
    and "searchFoods_select U term (Rows data) shown = rank U 30 term data"
    by (simp_all add: search_is_rank)
qed


lemma alimento_taco [simp]: "alimento (taco k n) = n"
  by (simp add: taco_def)

lemma rank_unfold:
  "rank U limit term data =
     take limit (sort_js (compareFoods U (searchWords U term))
       (filter (matches U (searchWords U term)) data))"
  by (simp add: rank_def Let_def)

lemma banana_names:
  "normalizeText latin1 (str ''Banana prata'') = str ''banana prata''"
  "normalizeText latin1 (str ''Banana nanica'') = str ''banana nanica''"
  "normalizeText latin1 (str ''Abacate'') = str ''abacate''"
  "normalizeText latin1 (str ''Nabo'') = str ''nabo''"
  "normalizeText latin1 (str ''Arroz'') = str ''arroz''"
  "normalizeText latin1 (str ''banana'') = str ''banana''"
  "normalizeText latin1 (str ''ar'') = str ''ar''"
  by (simp_all add: text_eval)

lemma banana_words:
  "searchWords latin1 (str ''banana'') = [str ''banana'']"
  "searchWords latin1 (str ''ar'') = [str ''ar'']"
  by (simp_all add: searchWords_def banana_names) (simp_all add: split_ws_def str_simps isWS_def)

lemma banana_matches:
  "matches latin1 [str ''banana''] (taco k (str ''Banana prata''))"
  "matches latin1 [str ''banana''] (taco k (str ''Banana nanica''))"
  "\<not> matches latin1 [str ''banana''] (taco k (str ''Abacate''))"
  "\<not> matches latin1 [str ''banana''] (taco k (str ''Nabo''))"
  "matches latin1 [str ''ar''] (taco k (str ''Arroz''))"
  by (simp_all add: matches_def banana_names) (simp_all add: str_simps startsWith_def)

lemma banana_compare:
  "compareFoods latin1 [str ''banana''] (taco j (str ''Banana prata'')) (taco k (str ''Banana nanica'')) = 1"
  "compareFoods latin1 [str ''ar''] (taco j (str ''Arroz'')) (taco k (str ''Arroz'')) = 0"
  by (simp_all add: compareFoods_def banana_names) (simp_all add: str_simps startsWith_def latin1_def)

lemma rank_bananas:
  "rank latin1 20 (str ''banana'') bananas = [taco 3 (str ''Banana nanica''), taco 1 (str ''Banana prata'')]"
  "rank latin1 30 (str ''banana'') bananas = [taco 3 (str ''Banana nanica''), taco 1 (str ''Banana prata'')]"
  by (simp_all add: rank_unfold banana_words bananas_def banana_matches banana_compare sort_js_def)

lemma sort_js_already:
  "(\<And>x y. x \<in> set xs \<Longrightarrow> y \<in> set xs \<Longrightarrow> cmp x y \<le> 0) \<Longrightarrow> sort_js cmp xs = xs"
proof (induction xs)
  case Nil
  then show ?case by (simp add: sort_js_def)
next
  case (Cons x xs)
  then have "sort_js cmp xs = xs" by simp
  then have "sort_js cmp (x # xs) = insert_js cmp x xs"
    by (simp add: sort_js_def)
  also have "\<dots> = x # xs"
    using Cons.prems by (cases xs) simp_all
  finally show ?case .
qed

lemma rank_arroz: "rank latin1 20 (str ''ar'') arroz_rows = take 20 arroz_rows"
proof -
  have "filter (matches latin1 [str ''ar'']) arroz_rows = arroz_rows"
    by (simp add: arroz_rows_def banana_matches)
  moreover have "sort_js (compareFoods latin1 [str ''ar'']) arroz_rows = arroz_rows"
    by (rule sort_js_already) (auto simp: arroz_rows_def banana_compare)
  ultimately show ?thesis
    by (simp add: rank_unfold banana_words)
qed

text \<open>
  Of 21 rows that all match the term, the modal shows 20: the last one matches and is
  not in the result.
\<close>

theorem search_matches_counterexample:
  "searchWords latin1 (str ''ar'') = [str ''ar'']
   \<and> matches latin1 (searchWords latin1 (str ''ar'')) (taco 20 (str ''Arroz''))
   \<and> taco 20 (str ''Arroz'') \<in> set arroz_rows
   \<and> taco 20 (str ''Arroz'') \<notin> set (searchResults (searchFoods latin1 (str ''ar'') (Rows arroz_rows) (modal [])))"
proof -
  have "length (str ''ar'') = 2" by (simp add: str_simps)
  then have "searchResults (searchFoods latin1 (str ''ar'') (Rows arroz_rows) (modal [])) = take 20 arroz_rows"
    by (simp add: searchFoods_def rank_arroz)
  moreover have "take 20 arroz_rows = map (\<lambda>k. taco k (str ''Arroz'')) [0..<20]"
    by (simp add: arroz_rows_def take_map)
  moreover have "taco 20 (str ''Arroz'') \<notin> set (map (\<lambda>k. taco k (str ''Arroz'')) [0..<20])"
    by (auto simp: taco_def)
  moreover have "taco 20 (str ''Arroz'') \<in> set arroz_rows"
    by (simp add: arroz_rows_def)
  ultimately show ?thesis
    by (simp add: banana_words banana_matches)
qed

theorem search_matches_witness:
  "length (filter (matches latin1 (searchWords latin1 (str ''banana''))) bananas) \<le> 20
   \<and> 2 \<le> length (str ''banana'')
   \<and> taco 1 (str ''Banana prata'') \<in> set (searchResults (searchFoods latin1 (str ''banana'') (Rows bananas) (modal [])))
   \<and> taco 2 (str ''Abacate'') \<notin> set (searchResults (searchFoods latin1 (str ''banana'') (Rows bananas) (modal [])))
   \<and> searchFoods_select latin1 (str ''banana'') (Rows bananas) [] =
        [taco 3 (str ''Banana nanica''), taco 1 (str ''Banana prata'')]"
proof -
  have 1: "length (filter (matches latin1 (searchWords latin1 (str ''banana''))) bananas) \<le> 20"
    by (simp add: banana_words bananas_def banana_matches)
  have 2: "2 \<le> length (str ''banana'')"
    by (simp add: str_simps)
  have 3: "taco 1 (str ''Banana prata'') \<noteq> taco 2 (str ''Abacate'')" "taco 3 (str ''Banana nanica'') \<noteq> taco 2 (str ''Abacate'')"
    by (simp_all add: taco_def)
  show ?thesis
    using search_matches [of "taco 1 (str ''Banana prata'')" latin1 20 "str ''banana''" bananas "modal []" "[]"]
      1 2 3 by (simp add: rank_bananas)
qed


section \<open>Ranking\<close>

lemma set_insert_js: "set (insert_js cmp x ys) = insert x (set ys)"
  by (metis mset_insert_js set_mset_add_mset_insert set_mset_mset)

lemma sorted_insert_js:
  assumes total: "\<And>a b. cmp a b \<le> 0 \<or> cmp b a \<le> 0"
    and trans: "\<And>a b c. cmp a b \<le> 0 \<Longrightarrow> cmp b c \<le> 0 \<Longrightarrow> cmp a c \<le> 0"
  shows "sorted_wrt (\<lambda>a b. cmp a b \<le> 0) ys \<Longrightarrow> sorted_wrt (\<lambda>a b. cmp a b \<le> 0) (insert_js cmp x ys)"
proof (induction ys)
  case Nil
  then show ?case by simp
next
  case (Cons y ys)
  show ?case
  proof (cases "cmp x y \<le> 0")
    case True
    then have "\<forall>z \<in> set ys. cmp x z \<le> 0"
      using Cons.prems trans by auto
    with True Cons.prems show ?thesis by simp
  next
    case False
    then have "cmp y x \<le> 0" using total by blast
    with False Cons show ?thesis by (auto simp: set_insert_js)
  qed
qed

lemma sorted_sort_js:
  assumes "\<And>a b. cmp a b \<le> 0 \<or> cmp b a \<le> 0"
    and "\<And>a b c. cmp a b \<le> 0 \<Longrightarrow> cmp b c \<le> 0 \<Longrightarrow> cmp a c \<le> 0"
  shows "sorted_wrt (\<lambda>a b. cmp a b \<le> 0) (sort_js cmp xs)"
  unfolding sort_js_def
  by (induction xs) (simp_all add: sorted_insert_js [OF assms])

lemma compareFoods_cases:
  "compareFoods U words a b =
     (if startsWith (normalizeText U (alimento a)) (case words of [] \<Rightarrow> [] | w # ws \<Rightarrow> w)
         \<and> \<not> startsWith (normalizeText U (alimento b)) (case words of [] \<Rightarrow> [] | w # ws \<Rightarrow> w) then - 1
      else if \<not> startsWith (normalizeText U (alimento a)) (case words of [] \<Rightarrow> [] | w # ws \<Rightarrow> w)
         \<and> startsWith (normalizeText U (alimento b)) (case words of [] \<Rightarrow> [] | w # ws \<Rightarrow> w) then 1
      else localeCompare U (normalizeText U (alimento a)) (normalizeText U (alimento b)))"
  by (simp add: compareFoods_def Let_def)

lemma compareFoods_total:
  assumes "\<And>a b. localeCompare U a b \<le> 0 \<or> localeCompare U b a \<le> 0"
  shows "compareFoods U words a b \<le> 0 \<or> compareFoods U words b a \<le> 0"
proof -
  define fw where "fw = (case words of [] \<Rightarrow> [] | w # ws \<Rightarrow> w)"
  define sa where "sa = startsWith (normalizeText U (alimento a)) fw"
  define sb where "sb = startsWith (normalizeText U (alimento b)) fw"
  have "compareFoods U words a b = (if sa \<and> \<not> sb then - 1 else if \<not> sa \<and> sb then 1
          else localeCompare U (normalizeText U (alimento a)) (normalizeText U (alimento b)))"
    and "compareFoods U words b a = (if sb \<and> \<not> sa then - 1 else if \<not> sb \<and> sa then 1
          else localeCompare U (normalizeText U (alimento b)) (normalizeText U (alimento a)))"
    by (simp_all add: compareFoods_cases sa_def sb_def fw_def)
  then show ?thesis
    using assms [of "normalizeText U (alimento a)" "normalizeText U (alimento b)"]
    by (cases sa; cases sb) simp_all
qed

lemma compareFoods_le:
  assumes "compareFoods U words a b \<le> 0"
  shows "(startsWith (normalizeText U (alimento b)) (case words of [] \<Rightarrow> [] | w # ws \<Rightarrow> w)
            \<longrightarrow> startsWith (normalizeText U (alimento a)) (case words of [] \<Rightarrow> [] | w # ws \<Rightarrow> w))
         \<and> (startsWith (normalizeText U (alimento a)) (case words of [] \<Rightarrow> [] | w # ws \<Rightarrow> w)
              = startsWith (normalizeText U (alimento b)) (case words of [] \<Rightarrow> [] | w # ws \<Rightarrow> w)
            \<longrightarrow> localeCompare U (normalizeText U (alimento a)) (normalizeText U (alimento b)) \<le> 0)"
proof -
  define fw where "fw = (case words of [] \<Rightarrow> [] | w # ws \<Rightarrow> w)"
  define sa where "sa = startsWith (normalizeText U (alimento a)) fw"
  define sb where "sb = startsWith (normalizeText U (alimento b)) fw"
  have "compareFoods U words a b = (if sa \<and> \<not> sb then - 1 else if \<not> sa \<and> sb then 1
          else localeCompare U (normalizeText U (alimento a)) (normalizeText U (alimento b)))"
    by (simp add: compareFoods_cases sa_def sb_def fw_def)
  with assms have "(sb \<longrightarrow> sa)
      \<and> (sa = sb \<longrightarrow> localeCompare U (normalizeText U (alimento a)) (normalizeText U (alimento b)) \<le> 0)"
    by (cases sa; cases sb) simp_all
  then show ?thesis
    by (simp add: sa_def sb_def fw_def)
qed

lemma compareFoods_trans:
  assumes "\<And>a b c. localeCompare U a b \<le> 0 \<Longrightarrow> localeCompare U b c \<le> 0 \<Longrightarrow> localeCompare U a c \<le> 0"
    and "compareFoods U words a b \<le> 0" and "compareFoods U words b c \<le> 0"
  shows "compareFoods U words a c \<le> 0"
proof -
  define fw where "fw = (case words of [] \<Rightarrow> [] | w # ws \<Rightarrow> w)"
  define sa where "sa = startsWith (normalizeText U (alimento a)) fw"
  define sb where "sb = startsWith (normalizeText U (alimento b)) fw"
  define sc where "sc = startsWith (normalizeText U (alimento c)) fw"
  define na where "na = normalizeText U (alimento a)"
  define nb where "nb = normalizeText U (alimento b)"
  define nc where "nc = normalizeText U (alimento c)"
  have ab: "(sb \<longrightarrow> sa) \<and> (sa = sb \<longrightarrow> localeCompare U na nb \<le> 0)"
    using compareFoods_le [OF assms(2)] by (simp add: sa_def sb_def fw_def na_def nb_def)
  have bc: "(sc \<longrightarrow> sb) \<and> (sb = sc \<longrightarrow> localeCompare U nb nc \<le> 0)"
    using compareFoods_le [OF assms(3)] by (simp add: sb_def sc_def fw_def nb_def nc_def)
  have ac: "compareFoods U words a c = (if sa \<and> \<not> sc then - 1 else if \<not> sa \<and> sc then 1
          else localeCompare U na nc)"
    by (simp add: compareFoods_cases sa_def sc_def fw_def na_def nc_def)
  show ?thesis
  proof (cases "sa = sc")
    case True
    with ab bc have "sa = sb" "sb = sc" by auto
    with ab bc have "localeCompare U na nc \<le> 0" using assms(1) by blast
    with True show ?thesis by (simp add: ac)
  next
    case False
    with ab bc have "sa \<and> \<not> sc" by auto
    then show ?thesis by (simp add: ac)
  qed
qed

lemma filter_insert_js:
  assumes trans: "\<And>a b c. cmp a b \<le> 0 \<Longrightarrow> cmp b c \<le> 0 \<Longrightarrow> cmp a c \<le> 0"
  shows "filter (\<lambda>x. cmp r x \<le> 0 \<and> cmp x r \<le> 0) (insert_js cmp a ys) =
     (if cmp r a \<le> 0 \<and> cmp a r \<le> 0 then a # filter (\<lambda>x. cmp r x \<le> 0 \<and> cmp x r \<le> 0) ys
      else filter (\<lambda>x. cmp r x \<le> 0 \<and> cmp x r \<le> 0) ys)"
proof (induction ys)
  case Nil
  then show ?case by simp
next
  case (Cons y ys)
  show ?case
  proof (cases "cmp a y \<le> 0")
    case True
    then show ?thesis by simp
  next
    case False
    then have "\<not> (cmp a r \<le> 0 \<and> cmp r y \<le> 0)"
      using trans by blast
    with False Cons.IH show ?thesis by auto
  qed
qed

lemma filter_sort_js:
  assumes "\<And>a b c. cmp a b \<le> 0 \<Longrightarrow> cmp b c \<le> 0 \<Longrightarrow> cmp a c \<le> 0"
  shows "filter (\<lambda>x. cmp r x \<le> 0 \<and> cmp x r \<le> 0) (sort_js cmp xs) =
         filter (\<lambda>x. cmp r x \<le> 0 \<and> cmp x r \<le> 0) xs"
proof (induction xs)
  case Nil
  then show ?case by (simp add: sort_js_def)
next
  case (Cons a xs)
  have "sort_js cmp (a # xs) = insert_js cmp a (sort_js cmp xs)"
    by (simp add: sort_js_def)
  moreover have "filter (\<lambda>x. cmp r x \<le> 0 \<and> cmp x r \<le> 0) (insert_js cmp a (sort_js cmp xs)) =
     (if cmp r a \<le> 0 \<and> cmp a r \<le> 0
      then a # filter (\<lambda>x. cmp r x \<le> 0 \<and> cmp x r \<le> 0) (sort_js cmp xs)
      else filter (\<lambda>x. cmp r x \<le> 0 \<and> cmp x r \<le> 0) (sort_js cmp xs))"
    by (rule filter_insert_js) (blast intro: assms)
  ultimately show ?case
    using Cons.IH by simp
qed

lemma rank_prefix: "rank U limit term data = take limit (rank U (length data) term data)"
proof -
  have "length (sort_js (compareFoods U (searchWords U term))
          (filter (matches U (searchWords U term)) data)) \<le> length data"
    by (simp add: length_sort_js)
  then show ?thesis
    by (simp add: rank_unfold)
qed

lemma rank_full_mset:
  "mset (rank U (length data) term data) = mset (filter (matches U (searchWords U term)) data)"
proof -
  have "length (sort_js (compareFoods U (searchWords U term))
          (filter (matches U (searchWords U term)) data)) \<le> length data"
    by (simp add: length_sort_js)
  then show ?thesis
    by (simp add: rank_unfold mset_sort_js)
qed

lemma rank_full_stable:
  assumes trans: "\<And>a b c. localeCompare U a b \<le> 0 \<Longrightarrow> localeCompare U b c \<le> 0 \<Longrightarrow> localeCompare U a c \<le> 0"
  shows "filter (\<lambda>x. compareFoods U (searchWords U term) r x \<le> 0
                     \<and> compareFoods U (searchWords U term) x r \<le> 0)
           (rank U (length data) term data) =
         filter (\<lambda>x. compareFoods U (searchWords U term) r x \<le> 0
                     \<and> compareFoods U (searchWords U term) x r \<le> 0)
           (filter (matches U (searchWords U term)) data)"
proof -
  let ?cmp = "compareFoods U (searchWords U term)"
  let ?ms = "filter (matches U (searchWords U term)) data"
  have "length (sort_js ?cmp ?ms) \<le> length data"
    by (simp add: length_sort_js)
  then have "rank U (length data) term data = sort_js ?cmp ?ms"
    by (simp add: rank_unfold)
  moreover have "filter (\<lambda>x. ?cmp r x \<le> 0 \<and> ?cmp x r \<le> 0) (sort_js ?cmp ?ms) =
      filter (\<lambda>x. ?cmp r x \<le> 0 \<and> ?cmp x r \<le> 0) ?ms"
  proof (rule filter_sort_js)
    fix a b c
    assume ab: "?cmp a b \<le> 0" and bc: "?cmp b c \<le> 0"
    show "?cmp a c \<le> 0"
    proof (rule compareFoods_trans [where b = b])
      show "localeCompare U x z \<le> 0"
        if "localeCompare U x y \<le> 0" "localeCompare U y z \<le> 0" for x y z
        using that by (rule trans)
    qed (rule ab, rule bc)
  qed
  ultimately show ?thesis by simp
qed

text \<open>
  C4. Let \<open>localeCompare\<close> be a total preorder (any two names are comparable; it is
  transitive). The ranking without a cut (the limit being the size of the table) holds
  exactly the matching rows, each as often as the table does; in it a row whose normalised
  name starts with the first word of the query never comes after one whose name does not,
  and of two rows in the same group the earlier one does not compare after the later one;
  rows that tie keep the order of the table. The ranking with a limit is the start of the
  ranking without a cut, up to the limit: the modal shows its first 20 rows and the select
  its first 30.
\<close>

theorem rank_order:
  assumes total: "\<And>a b. localeCompare U a b \<le> 0 \<or> localeCompare U b a \<le> 0"
    and trans: "\<And>a b c. localeCompare U a b \<le> 0 \<Longrightarrow> localeCompare U b c \<le> 0 \<Longrightarrow> localeCompare U a c \<le> 0"
  shows "sorted_wrt
      (\<lambda>a b.
         (startsWith (normalizeText U (alimento b)) (case searchWords U term of [] \<Rightarrow> [] | w # ws \<Rightarrow> w)
            \<longrightarrow> startsWith (normalizeText U (alimento a)) (case searchWords U term of [] \<Rightarrow> [] | w # ws \<Rightarrow> w))
         \<and> (startsWith (normalizeText U (alimento a)) (case searchWords U term of [] \<Rightarrow> [] | w # ws \<Rightarrow> w)
              = startsWith (normalizeText U (alimento b)) (case searchWords U term of [] \<Rightarrow> [] | w # ws \<Rightarrow> w)
            \<longrightarrow> localeCompare U (normalizeText U (alimento a)) (normalizeText U (alimento b)) \<le> 0))
      (rank U limit term data)
    \<and> length (rank U limit term data) \<le> limit
    \<and> rank U limit term data = take limit (rank U (length data) term data)
    \<and> mset (rank U (length data) term data) = mset (filter (matches U (searchWords U term)) data)
    \<and> filter (\<lambda>x. compareFoods U (searchWords U term) r x \<le> 0
                     \<and> compareFoods U (searchWords U term) x r \<le> 0)
           (rank U (length data) term data) =
         filter (\<lambda>x. compareFoods U (searchWords U term) r x \<le> 0
                     \<and> compareFoods U (searchWords U term) x r \<le> 0)
           (filter (matches U (searchWords U term)) data)
    \<and> searchResults (searchFoods U term (Rows data) s) = (if length term < 2 then [] else rank U 20 term data)
    \<and> length (searchResults (searchFoods U term (Rows data) s)) \<le> 20
    \<and> searchFoods_select U term (Rows data) shown = (if length term < 2 then [] else rank U 30 term data)
    \<and> length (searchFoods_select U term (Rows data) shown) \<le> 30"
proof -
  let ?cmp = "compareFoods U (searchWords U term)"
  have "sorted_wrt (\<lambda>a b. ?cmp a b \<le> 0) (sort_js ?cmp (filter (matches U (searchWords U term)) data))"
  proof (rule sorted_sort_js)
    fix a b
    show "?cmp a b \<le> 0 \<or> ?cmp b a \<le> 0"
      by (rule compareFoods_total [OF total])
  next
    fix a b c
    assume ab: "?cmp a b \<le> 0" and bc: "?cmp b c \<le> 0"
    show "?cmp a c \<le> 0"
    proof (rule compareFoods_trans [where b = b])
      show "localeCompare U x z \<le> 0"
        if "localeCompare U x y \<le> 0" "localeCompare U y z \<le> 0" for x y z
        using that by (rule trans)
    qed (rule ab, rule bc)
  qed
  then have "sorted_wrt (\<lambda>a b. ?cmp a b \<le> 0) (rank U limit term data)"
    unfolding rank_unfold by (rule sorted_wrt_take)
  then have 1: "sorted_wrt
      (\<lambda>a b.
         (startsWith (normalizeText U (alimento b)) (case searchWords U term of [] \<Rightarrow> [] | w # ws \<Rightarrow> w)
            \<longrightarrow> startsWith (normalizeText U (alimento a)) (case searchWords U term of [] \<Rightarrow> [] | w # ws \<Rightarrow> w))
         \<and> (startsWith (normalizeText U (alimento a)) (case searchWords U term of [] \<Rightarrow> [] | w # ws \<Rightarrow> w)
              = startsWith (normalizeText U (alimento b)) (case searchWords U term of [] \<Rightarrow> [] | w # ws \<Rightarrow> w)
            \<longrightarrow> localeCompare U (normalizeText U (alimento a)) (normalizeText U (alimento b)) \<le> 0))
      (rank U limit term data)"
    by (rule sorted_wrt_mono_rel [rotated]) (rule compareFoods_le)
  have 2: "length (rank U n term data) \<le> n" for n
    by (simp add: rank_unfold)
  have 3: "searchResults (searchFoods U term (Rows data) s) = (if length term < 2 then [] else rank U 20 term data)"
    "searchFoods_select U term (Rows data) shown = (if length term < 2 then [] else rank U 30 term data)"
    by (simp_all add: searchFoods_def searchFoods_select_def)
  have 4: "length (searchResults (searchFoods U term (Rows data) s)) \<le> 20"
    "length (searchFoods_select U term (Rows data) shown) \<le> 30"
    unfolding 3 using 2 [of 20] 2 [of 30] by simp_all
  have 5: "filter (\<lambda>x. ?cmp r x \<le> 0 \<and> ?cmp x r \<le> 0) (rank U (length data) term data) =
      filter (\<lambda>x. ?cmp r x \<le> 0 \<and> ?cmp x r \<le> 0) (filter (matches U (searchWords U term)) data)"
    by (rule rank_full_stable) (rule trans)
  show ?thesis
    using 1 2 [of limit] rank_prefix [of U limit "term" data] rank_full_mset [of U data "term"] 5 3 4
    by (intro conjI)
qed


lemma compare_units_total: "compare_units a b \<le> 0 \<or> compare_units b a \<le> 0"
proof (induction a b rule: compare_units.induct)
  case (4 x xs y ys)
  show ?case
  proof (cases "x < y")
    case True
    then show ?thesis by simp
  next
    case False
    show ?thesis
    proof (cases "y < x")
      case True
      then show ?thesis by simp
    next
      case False
      with \<open>\<not> x < y\<close> 4 show ?thesis by simp
    qed
  qed
qed simp_all

lemma compare_units_Nil: "compare_units [] c \<le> 0"
  by (cases c) simp_all

lemma compare_units_Cons_le:
  "compare_units (x # xs) (y # ys) \<le> 0 \<longleftrightarrow> x < y \<or> (x = y \<and> compare_units xs ys \<le> 0)"
  by (cases "x < y"; cases "y < x") auto

lemma compare_units_trans:
  "compare_units a b \<le> 0 \<Longrightarrow> compare_units b c \<le> 0 \<Longrightarrow> compare_units a c \<le> 0"
proof (induction a b arbitrary: c rule: compare_units.induct)
  case 1
  then show ?case by (simp add: compare_units_Nil)
next
  case (2 y ys)
  then show ?case by (simp add: compare_units_Nil)
next
  case (3 x xs)
  then show ?case by simp
next
  case (4 x xs y ys)
  from "4.prems"(2) obtain z zs where c: "c = z # zs"
    by (cases c) simp_all
  from "4.prems"(1) have xy: "x < y \<or> (x = y \<and> compare_units xs ys \<le> 0)"
    by (simp only: compare_units_Cons_le)
  from "4.prems"(2) have yz: "y < z \<or> (y = z \<and> compare_units ys zs \<le> 0)"
    unfolding c by (simp only: compare_units_Cons_le)
  show ?case
  proof (cases "x < z")
    case True
    then show ?thesis unfolding c by (simp only: compare_units_Cons_le) simp
  next
    case False
    with xy yz have eq: "x = y" "y = z" and le: "compare_units xs ys \<le> 0" "compare_units ys zs \<le> 0"
      by auto
    from eq have "\<not> x < y" "\<not> y < x" by simp_all
    then have "compare_units xs zs \<le> 0"
      using le by (rule "4.IH")
    with eq show ?thesis unfolding c by (simp only: compare_units_Cons_le) simp
  qed
qed


lemma latin1_compare:
  "localeCompare latin1 a b \<le> 0 \<or> localeCompare latin1 b a \<le> 0"
  "localeCompare latin1 a b \<le> 0 \<Longrightarrow> localeCompare latin1 b c \<le> 0 \<Longrightarrow> localeCompare latin1 a c \<le> 0"
  using compare_units_total [of a b] compare_units_trans [of a b c]
  by (simp_all add: latin1_def)

lemma na_words: "searchWords latin1 (str ''na'') = [str ''na'']"
  by (simp add: searchWords_def text_eval) (simp add: split_ws_def str_simps isWS_def)

lemma na_matches:
  "matches latin1 [str ''na''] (taco k (str ''Banana prata''))"
  "matches latin1 [str ''na''] (taco k (str ''Banana nanica''))"
  "\<not> matches latin1 [str ''na''] (taco k (str ''Abacate''))"
  "matches latin1 [str ''na''] (taco k (str ''Nabo''))"
  by (simp_all add: matches_def banana_names) (simp_all add: str_simps startsWith_def)

lemma na_compare:
  "compareFoods latin1 [str ''na''] (taco j (str ''Banana nanica'')) (taco k (str ''Nabo'')) = 1"
  "compareFoods latin1 [str ''na''] (taco j (str ''Banana prata'')) (taco k (str ''Nabo'')) = 1"
  "compareFoods latin1 [str ''na''] (taco j (str ''Banana prata'')) (taco k (str ''Banana nanica'')) = 1"
  by (simp_all add: compareFoods_def banana_names) (simp_all add: str_simps startsWith_def latin1_def)

lemma rank_na:
  "rank latin1 20 (str ''na'') bananas =
     [taco 4 (str ''Nabo''), taco 3 (str ''Banana nanica''), taco 1 (str ''Banana prata'')]"
  "rank latin1 30 (str ''na'') bananas =
     [taco 4 (str ''Nabo''), taco 3 (str ''Banana nanica''), taco 1 (str ''Banana prata'')]"
  by (simp_all add: rank_unfold na_words bananas_def na_matches na_compare sort_js_def)

lemma sort_js_last_first:
  assumes "\<And>x y. x \<in> set xs \<Longrightarrow> y \<in> set xs \<Longrightarrow> cmp x y \<le> 0"
    and "\<And>x. x \<in> set xs \<Longrightarrow> \<not> cmp x a \<le> 0"
  shows "sort_js cmp (xs @ [a]) = a # xs"
  using assms
proof (induction xs)
  case Nil
  then show ?case by (simp add: sort_js_def)
next
  case (Cons x xs)
  then have "sort_js cmp (xs @ [a]) = a # xs" by simp
  then have "sort_js cmp ((x # xs) @ [a]) = insert_js cmp x (a # xs)"
    by (simp add: sort_js_def)
  also have "\<dots> = a # insert_js cmp x xs"
    using Cons.prems(2) by simp
  also have "insert_js cmp x xs = x # xs"
    using Cons.prems(1) by (cases xs) simp_all
  finally show ?case .
qed

lemma araruta_facts:
  "matches latin1 [str ''ar''] (taco k (str ''Araruta''))"
  "compareFoods latin1 [str ''ar''] (taco j (str ''Arroz'')) (taco k (str ''Araruta'')) = 1"
  by (simp_all add: matches_def compareFoods_def banana_names text_eval)
     (simp_all add: str_simps startsWith_def latin1_def)

lemma rank_araruta:
  "rank latin1 20 (str ''ar'') arroz_araruta = taco 21 (str ''Araruta'') # take 19 arroz_rows"
  "rank latin1 30 (str ''ar'') arroz_araruta = taco 21 (str ''Araruta'') # arroz_rows"
  "rank latin1 22 (str ''ar'') arroz_araruta = taco 21 (str ''Araruta'') # arroz_rows"
proof -
  have "filter (matches latin1 [str ''ar'']) arroz_araruta = arroz_araruta"
    by (simp add: arroz_araruta_def arroz_rows_def banana_matches araruta_facts)
  moreover have "sort_js (compareFoods latin1 [str ''ar'']) arroz_araruta =
      taco 21 (str ''Araruta'') # arroz_rows"
    unfolding arroz_araruta_def
    by (rule sort_js_last_first) (auto simp: arroz_rows_def banana_compare araruta_facts)
  ultimately have full: "sort_js (compareFoods latin1 (searchWords latin1 (str ''ar'')))
      (filter (matches latin1 (searchWords latin1 (str ''ar''))) arroz_araruta) =
      taco 21 (str ''Araruta'') # arroz_rows"
    by (simp add: banana_words)
  have len: "length arroz_rows = 21"
    by (simp add: arroz_rows_def)
  show "rank latin1 20 (str ''ar'') arroz_araruta = taco 21 (str ''Araruta'') # take 19 arroz_rows"
    unfolding rank_unfold full by (simp add: take_Cons')
  show "rank latin1 30 (str ''ar'') arroz_araruta = taco 21 (str ''Araruta'') # arroz_rows"
    unfolding rank_unfold full by (simp add: take_Cons' len)
  show "rank latin1 22 (str ''ar'') arroz_araruta = taco 21 (str ''Araruta'') # arroz_rows"
    unfolding rank_unfold full by (simp add: take_Cons' len)
qed


theorem rank_order_witness:
  "searchResults (searchFoods latin1 (str ''ar'') (Rows arroz_araruta) (modal [])) =
       taco 21 (str ''Araruta'') # take 19 arroz_rows
   \<and> length (searchResults (searchFoods latin1 (str ''ar'') (Rows arroz_araruta) (modal []))) = 20
   \<and> searchFoods_select latin1 (str ''ar'') (Rows arroz_araruta) [] =
       taco 21 (str ''Araruta'') # arroz_rows
   \<and> rank latin1 (length arroz_araruta) (str ''ar'') arroz_araruta =
       taco 21 (str ''Araruta'') # arroz_rows
   \<and> searchResults (searchFoods latin1 (str ''na'') (Rows bananas) (modal [])) =
       [taco 4 (str ''Nabo''), taco 3 (str ''Banana nanica''), taco 1 (str ''Banana prata'')]"
proof -
  have total: "localeCompare latin1 a b \<le> 0 \<or> localeCompare latin1 b a \<le> 0" for a b
    by (rule latin1_compare)
  have trans: "localeCompare latin1 a c \<le> 0"
    if "localeCompare latin1 a b \<le> 0" "localeCompare latin1 b c \<le> 0" for a b c
    using that by (rule latin1_compare)
  have len: "\<not> length (str ''ar'') < 2" "\<not> length (str ''na'') < 2"
    by (simp_all add: str_simps)
  have size: "length arroz_araruta = 22" "length arroz_rows = 21"
    by (simp_all add: arroz_araruta_def arroz_rows_def)
  have full: "rank latin1 22 (str ''ar'') arroz_araruta = taco 21 (str ''Araruta'') # arroz_rows"
    by (rule rank_araruta)
  have na: "searchResults (searchFoods latin1 (str ''na'') (Rows bananas) (modal [])) =
       [taco 4 (str ''Nabo''), taco 3 (str ''Banana nanica''), taco 1 (str ''Banana prata'')]"
    by (simp add: searchFoods_def len rank_na)
  show ?thesis
    using rank_order [of latin1 "str ''ar''" 20 arroz_araruta "taco 0 (str ''Arroz'')" "modal []" "[]",
        OF total trans] na
    by (simp add: rank_araruta len size full)
qed


end
